theory Spec2Isabelle
  imports Main "HOL-Library.Word"
begin

section \<open>Platform parameters and external collaborators\<close>

text \<open>
  The font engine (\<^verbatim>\<open>src/models/ttf2.cpp\<close>) and the font registry
  (\<^verbatim>\<open>models/fonts.hpp\<close> and its implementation file) are embedded here as
  state-passing functions. Their headers \<^verbatim>\<open>models/ttf2.hpp\<close>, \<^verbatim>\<open>global.hpp\<close>,
  \<^verbatim>\<open>screen.hpp\<close>, \<^verbatim>\<open>alloc.hpp\<close> and \<^verbatim>\<open>logging.hpp\<close> are not among the
  sources, so the constants and macros they declare are parameters of the model,
  collected in the record \<open>platform\<close>. FreeType, the file system and the heap are
  external: their answers are parameters too.
\<close>

datatype pixel_resolution = ONE_BIT | THREE_BITS

datatype render_mode = FT_RENDER_MODE_MONO | FT_RENDER_MODE_NORMAL

text \<open>
  What FreeType leaves in \<^verbatim>\<open>face->glyph\<close> after \<^verbatim>\<open>FT_Load_Glyph\<close> or
  \<^verbatim>\<open>FT_Render_Glyph\<close>; only the fields that the engine reads.
  \<open>bitmap_buffer\<close> is the memory at \<^verbatim>\<open>slot->bitmap.buffer\<close>, read by offset.
\<close>

record FT_GlyphSlot =
  metrics_width :: int
  metrics_height :: int
  format_is_bitmap :: bool
  bitmap_pitch :: int
  bitmap_rows :: int
  bitmap_width :: int
  bitmap_buffer :: "nat \<Rightarrow> 8 word"
  bitmap_left :: int
  bitmap_top :: int
  advance_x :: int

text \<open>
  An opened FreeType face. The four functions say how the library answers on this
  font: \<open>char_index\<close> is \<^verbatim>\<open>FT_Get_Char_Index\<close> (0: no glyph), \<open>size_ok h\<close>
  says whether \<^verbatim>\<open>FT_Set_Char_Size\<close> accepts the character height \<open>h\<close>
  (in 1/64 points), \<open>load\<close> is \<^verbatim>\<open>FT_Load_Glyph\<close> at the configured height and
  \<open>render\<close> is \<^verbatim>\<open>FT_Render_Glyph\<close> (\<open>None\<close>: a non-zero error code).
  \<open>char_height\<close> is the height the face is configured to (\<open>None\<close>: never set).
\<close>

record FT_Face =
  char_index :: "int \<Rightarrow> nat"
  size_ok :: "int \<Rightarrow> bool"
  load :: "int option \<Rightarrow> nat \<Rightarrow> FT_GlyphSlot option"
  render :: "render_mode \<Rightarrow> FT_GlyphSlot \<Rightarrow> FT_GlyphSlot option"
  char_height :: "int option"

text \<open>
  \<open>BYTE_POOL_SIZE\<close> and \<open>USE_EPUB_FONTS\<close> are the constant and the macro of
  those names, \<open>CHAR_SIGNED\<close> says whether plain \<^verbatim>\<open>char\<close> is signed on the
  target, \<open>SIZE_T_BITS\<close> is the width of \<^verbatim>\<open>size_t\<close>, \<open>DIM_BITS\<close> and
  \<open>DIM_SIGNED\<close> are the width and the signedness of the integer type of the
  fields of \<^verbatim>\<open>Dim\<close>, \<open>pixel_res\<close> is what
  \<^verbatim>\<open>screen.get_pixel_resolution()\<close> returns. \<open>heap_ok n\<close> says whether the
  \<open>n\<close>-th allocation requested by a face succeeds, \<open>ft_init_ok\<close> whether
  \<^verbatim>\<open>FT_Init_FreeType\<close> succeeds, \<open>fopen\<close> gives the length of a file
  that can be opened (\<^verbatim>\<open>fopen\<close> and \<^verbatim>\<open>fstat\<close>), \<open>fread\<close> its content
  when it can be read in one piece, and \<open>ft_new_memory_face\<close> is
  \<^verbatim>\<open>FT_New_Memory_Face\<close>.
\<close>

record platform =
  BYTE_POOL_SIZE :: nat
  USE_EPUB_FONTS :: bool
  CHAR_SIGNED :: bool
  SIZE_T_BITS :: nat
  DIM_BITS :: nat
  DIM_SIGNED :: bool
  pixel_res :: pixel_resolution
  heap_ok :: "nat \<Rightarrow> bool"
  ft_init_ok :: bool
  fopen :: "string \<Rightarrow> nat option"
  fread :: "string \<Rightarrow> 8 word list option"
  ft_new_memory_face :: "8 word list \<Rightarrow> FT_Face option"

text \<open>
  Every way in which a call does not return: \<^verbatim>\<open>std::abort()\<close>, the fatal
  out-of-memory notification, a call through a null pointer, the exception of
  \<^verbatim>\<open>vector::at\<close>, and a \<^verbatim>\<open>memcpy\<close> that runs past the end of a chunk.
\<close>

datatype fault = Abort | OutOfMemory | NullPointer | OutOfRange | BufferOverrun

text \<open>
  What a call does to the outside, in order: the FreeType calls it makes and the lines
  it logs (\<^verbatim>\<open>LOG_E\<close>, \<^verbatim>\<open>LOG_D\<close>: the format string and its integer arguments).
\<close>

datatype event =
    FT_Set_Char_Size int
  | FT_Get_Char_Index int
  | FT_Load_Glyph nat
  | FT_Render_Glyph render_mode
  | FT_Done_Face
  | LOG_E string "int list"
  | LOG_D string "int list"

text \<open>
  Conversion of an \<^verbatim>\<open>int\<close> value to \<^verbatim>\<open>int16_t\<close>, to \<^verbatim>\<open>size_t\<close> and to
  the type of the fields of \<^verbatim>\<open>Dim\<close>: the value is reduced to the width of the
  type.
\<close>

definition int16_t :: "int \<Rightarrow> int" where
  "int16_t x = sint (word_of_int x :: 16 word)"

definition size_t :: "platform \<Rightarrow> int \<Rightarrow> nat" where
  "size_t P x = nat (x mod 2 ^ SIZE_T_BITS P)"

definition dim_t :: "platform \<Rightarrow> int \<Rightarrow> int" where
  "dim_t P x =
     (if DIM_SIGNED P then signed_take_bit (DIM_BITS P - 1) x else take_bit (DIM_BITS P) x)"

section \<open>Font engine: data\<close>

text \<open>
  \<^verbatim>\<open>Dim\<close> and \<^verbatim>\<open>TTF::BitmapGlyph\<close>. Their declarations are in the headers that
  are not among the sources, so the width of their integer fields is not known. A value
  stored in a field of \<^verbatim>\<open>Dim\<close> is converted by \<open>dim_t\<close>, whose width is a
  parameter; the other fields of a glyph are unbounded integers here, as wide as the
  values FreeType hands over. \<open>buffer\<close> points into the byte pool: the
  number of the chunk (counted from the oldest) and the offset in it; \<open>None\<close> is
  \<^verbatim>\<open>nullptr\<close>. The back-reference \<^verbatim>\<open>root\<close> to the owning face is not kept.
\<close>

record Dim =
  width :: int
  height :: int

record BitmapGlyph =
  buffer :: "(nat \<times> nat) option"
  dim :: Dim
  xoff :: int
  yoff :: int
  advance :: int
  pitch :: int

text \<open>
  The state of one \<^verbatim>\<open>TTF\<close> object. \<open>face\<close> is the FreeType handle
  (\<open>None\<close>: \<^verbatim>\<open>nullptr\<close>), \<open>memory_font\<close> the font buffer the object owns,
  \<open>cache\<close> the map from pixel size to the map from charcode to glyph,
  \<open>byte_pools\<close> the list of chunks, newest first, each a partial map from offset to
  the byte written there, and \<open>byte_pool_idx\<close> the cursor in the newest chunk (its
  type is not known either: a natural number here). \<open>allocs\<close> counts the allocations
  requested so far and \<open>trace\<close> records the events of the calls, oldest first; these
  two are not fields of the class.
\<close>

record TTF =
  face :: "FT_Face option"
  memory_font :: "8 word list option"
  current_size :: int
  cache :: "int \<rightharpoonup> (int \<rightharpoonup> BitmapGlyph)"
  byte_pools :: "(nat \<rightharpoonup> 8 word) list"
  byte_pool_idx :: nat
  fonts_cache_index :: int
  allocs :: nat
  trace :: "event list"

definition emit :: "event \<Rightarrow> TTF \<Rightarrow> TTF" where
  "emit e t = t\<lparr>trace := trace t @ [e]\<rparr>"

section \<open>Font engine: the byte pool\<close>

text \<open>
  Modelled from the spec: \<^verbatim>\<open>msg_viewer.out_of_memory\<close> is not among the sources.
  The spec calls it the single fatal out-of-memory notification, the terminal failure of
  the subsystem after which nothing is composed: the call that reaches it ends there.
\<close>

definition out_of_memory :: fault where
  "out_of_memory = OutOfMemory"

text \<open>
  \<^verbatim>\<open>TTF::add_buff_to_byte_pool\<close>: a new chunk goes to the front of the list and
  the cursor goes back to 0.
\<close>

definition add_buff_to_byte_pool :: "platform \<Rightarrow> TTF \<Rightarrow> fault + TTF" where
  "add_buff_to_byte_pool P t =
     (if heap_ok P (allocs t) then
        Inr (t\<lparr>byte_pools := Map.empty # byte_pools t,
                byte_pool_idx := 0,
                allocs := Suc (allocs t)\<rparr>)
      else Inl out_of_memory)"

text \<open>
  \<^verbatim>\<open>TTF::byte_pool_alloc\<close>. The parameter is a \<^verbatim>\<open>uint16_t\<close>. The buffer
  returned starts at the cursor of the newest chunk.
\<close>

definition byte_pool_alloc :: "platform \<Rightarrow> 16 word \<Rightarrow> TTF \<Rightarrow> fault + ((nat \<times> nat) \<times> TTF)" where
  "byte_pool_alloc P sz t =
     (if unat sz > BYTE_POOL_SIZE P then Inl Abort
      else
        (case (if byte_pools t = [] \<or> byte_pool_idx t + unat sz > BYTE_POOL_SIZE P
               then add_buff_to_byte_pool P (emit (LOG_D ''Adding new Byte Pool buffer.'' []) t)
               else Inr t) of
           Inl f \<Rightarrow> Inl f
         | Inr t1 \<Rightarrow>
             Inr ((length (byte_pools t1) - 1, byte_pool_idx t1),
                  t1\<lparr>byte_pool_idx := byte_pool_idx t1 + unat sz\<rparr>)))"

text \<open>A run of allocations, as the engine makes them one glyph after the other.\<close>

fun byte_pool_allocs :: "platform \<Rightarrow> 16 word list \<Rightarrow> TTF \<Rightarrow> fault + ((nat \<times> nat) list \<times> TTF)" where
  "byte_pool_allocs P [] t = Inr ([], t)"
| "byte_pool_allocs P (sz # sizes) t =
     (case byte_pool_alloc P sz t of
        Inl f \<Rightarrow> Inl f
      | Inr (buff, t1) \<Rightarrow>
          (case byte_pool_allocs P sizes t1 of
             Inl f \<Rightarrow> Inl f
           | Inr (buffs, t2) \<Rightarrow> Inr (buff # buffs, t2)))"

text \<open>\<^verbatim>\<open>memcpy\<close> of \<open>n\<close> bytes of \<open>src\<close> into a chunk at offset \<open>off\<close>.\<close>

definition memcpy :: "nat \<Rightarrow> (nat \<Rightarrow> 8 word) \<Rightarrow> nat \<Rightarrow> (nat \<rightharpoonup> 8 word) \<Rightarrow> (nat \<rightharpoonup> 8 word)" where
  "memcpy off src n chunk = (\<lambda>i. if off \<le> i \<and> i < off + n then Some (src (i - off)) else chunk i)"

section \<open>Font engine: cache and face\<close>

text \<open>\<^verbatim>\<open>TTF::clear_cache\<close>: the glyphs and the chunks are released; the cursor stays.\<close>

definition clear_cache :: "TTF \<Rightarrow> TTF" where
  "clear_cache t = t\<lparr>byte_pools := [], cache := Map.empty\<rparr>"

text \<open>
  \<^verbatim>\<open>TTF::clear_face\<close>. After \<^verbatim>\<open>free(memory_font)\<close> the object owns no buffer.
\<close>

definition clear_face :: "TTF \<Rightarrow> TTF" where
  "clear_face t =
     (let t1 = clear_cache t;
          t2 = (if face t1 \<noteq> None then emit FT_Done_Face t1 else t1)
      in t2\<lparr>face := None, memory_font := None, current_size := - 1\<rparr>)"

text \<open>
  \<^verbatim>\<open>TTF::set_font_size\<close>. On a face that is not open FreeType answers with an error.
  A refused size leaves the face as it was configured.
\<close>

definition set_font_size :: "int \<Rightarrow> TTF \<Rightarrow> bool \<times> TTF" where
  "set_font_size sz t =
     (let t1 = emit (FT_Set_Char_Size (sz * 64)) t in
      case face t of
        None \<Rightarrow> (False, emit (LOG_E ''Unable to set font size.'' []) t1)
      | Some f \<Rightarrow>
          if size_ok f (sz * 64)
          then (True, t1\<lparr>face := Some (f\<lparr>char_height := Some (sz * 64)\<rparr>), current_size := sz\<rparr>)
          else (False, emit (LOG_E ''Unable to set font size.'' []) t1))"

section \<open>Font engine: glyphs\<close>

definition cache_find :: "(int \<rightharpoonup> (int \<rightharpoonup> BitmapGlyph)) \<Rightarrow> int \<Rightarrow> int \<Rightarrow> BitmapGlyph option" where
  "cache_find c glyph_size charcode =
     (case c glyph_size of None \<Rightarrow> None | Some glyphs \<Rightarrow> glyphs charcode)"

text \<open>\<^verbatim>\<open>cache[size][charcode] = glyph\<close>: the inner map is created when it is absent.\<close>

definition cache_put ::
  "(int \<rightharpoonup> (int \<rightharpoonup> BitmapGlyph)) \<Rightarrow> int \<Rightarrow> int \<Rightarrow> BitmapGlyph \<Rightarrow> (int \<rightharpoonup> (int \<rightharpoonup> BitmapGlyph))" where
  "cache_put c sz charcode g =
     c(sz \<mapsto> (case c sz of None \<Rightarrow> Map.empty | Some glyphs \<Rightarrow> glyphs)(charcode \<mapsto> g))"

definition screen_render_mode :: "platform \<Rightarrow> render_mode" where
  "screen_render_mode P =
     (if pixel_res P = ONE_BIT then FT_RENDER_MODE_MONO else FT_RENDER_MODE_NORMAL)"

text \<open>
  The bitmap goes to the byte pool when \<^verbatim>\<open>size > 0\<close>. \<^verbatim>\<open>size\<close> is an
  \<^verbatim>\<open>int32_t\<close>; the call of \<^verbatim>\<open>byte_pool_alloc\<close> converts it to \<^verbatim>\<open>uint16_t\<close>,
  \<^verbatim>\<open>memcpy\<close> copies all of it.
\<close>

definition store_bitmap :: "platform \<Rightarrow> FT_GlyphSlot \<Rightarrow> int \<Rightarrow> TTF \<Rightarrow> fault + ((nat \<times> nat) option \<times> TTF)" where
  "store_bitmap P slot sz t =
     (if sz > 0 then
        (case byte_pool_alloc P (word_of_int sz) t of
           Inl f \<Rightarrow> Inl f
         | Inr (buff, t1) \<Rightarrow>
             (case byte_pools t1 of
                [] \<Rightarrow> Inl NullPointer
              | pool # pools \<Rightarrow>
                  if snd buff + nat sz > BYTE_POOL_SIZE P then Inl BufferOverrun
                  else Inr (Some buff,
                            t1\<lparr>byte_pools :=
                                  memcpy (snd buff) (bitmap_buffer slot) (nat sz) pool # pools\<rparr>)))
      else Inr (None, t))"

text \<open>
  The end of \<^verbatim>\<open>TTF::get_glyph_internal\<close>, from the reading of the rendered bitmap
  on: the glyph is filled from the slot, its bitmap of \<^verbatim>\<open>pitch * dim.height\<close> bytes
  stored, and the glyph entered in the cache under \<^verbatim>\<open>current_size\<close>.
\<close>

definition finish_glyph :: "platform \<Rightarrow> int \<Rightarrow> FT_GlyphSlot \<Rightarrow> TTF \<Rightarrow> fault + (BitmapGlyph option \<times> TTF)" where
  "finish_glyph P charcode slot t =
     (case store_bitmap P slot (bitmap_pitch slot * dim_t P (bitmap_rows slot)) t of
        Inl f \<Rightarrow> Inl f
      | Inr (buff, t1) \<Rightarrow>
          (let glyph = \<lparr>buffer = buff,
                        dim = \<lparr>width = dim_t P (bitmap_width slot),
                               height = dim_t P (bitmap_rows slot)\<rparr>,
                        xoff = bitmap_left slot,
                        yoff = - bitmap_top slot,
                        advance = advance_x slot div 64,
                        pitch = bitmap_pitch slot\<rparr>
           in Inr (Some glyph,
                   t1\<lparr>cache := cache_put (cache t1) (current_size t1) charcode glyph\<rparr>)))"

text \<open>
  The middle of \<^verbatim>\<open>TTF::get_glyph_internal\<close>, taken on a cache miss once the size is
  set: the glyph index, \<^verbatim>\<open>FT_Load_Glyph\<close>, the allocation of the glyph, and
  \<^verbatim>\<open>FT_Render_Glyph\<close> when the slot holds an outline. The error code that the
  last log line prints is not kept.
\<close>

definition rasterize :: "platform \<Rightarrow> int \<Rightarrow> TTF \<Rightarrow> fault + (BitmapGlyph option \<times> TTF)" where
  "rasterize P charcode t =
     (let t1 = emit (FT_Get_Char_Index charcode) t;
          not_found = Inr (None, emit (LOG_E ''Charcode not found in face: %d, font_index: %d''
                                         [charcode, fonts_cache_index t]) t1)
      in case face t of
           None \<Rightarrow> not_found
         | Some f \<Rightarrow>
             if char_index f charcode = 0 then not_found
             else
               (let t2 = emit (FT_Load_Glyph (char_index f charcode)) t1 in
                case load f (char_height f) (char_index f charcode) of
                  None \<Rightarrow>
                    Inr (None, emit (LOG_E ''Unable to load glyph for charcode: %d'' [charcode]) t2)
                | Some slot \<Rightarrow>
                    if \<not> heap_ok P (allocs t2) then Inl out_of_memory
                    else
                      (let t3 = t2\<lparr>allocs := Suc (allocs t2)\<rparr> in
                       if format_is_bitmap slot then finish_glyph P charcode slot t3
                       else
                         (let t4 = emit (FT_Render_Glyph (screen_render_mode P)) t3 in
                          case render f (screen_render_mode P) slot of
                            None \<Rightarrow>
                              Inr (None,
                                   emit (LOG_E ''Unable to render glyph for charcode: %d error: %d''
                                           [charcode]) t4)
                          | Some rendered \<Rightarrow> finish_glyph P charcode rendered t4))))"

text \<open>\<^verbatim>\<open>TTF::get_glyph_internal\<close>; \<^verbatim>\<open>TTF::get_glyph\<close> only calls it.\<close>

definition get_glyph_internal :: "platform \<Rightarrow> int \<Rightarrow> int \<Rightarrow> TTF \<Rightarrow> fault + (BitmapGlyph option \<times> TTF)" where
  "get_glyph_internal P charcode glyph_size t =
     (if face t = None then Inr (None, t)
      else
        (case cache_find (cache t) glyph_size charcode of
           Some g \<Rightarrow> Inr (Some g, t)
         | None \<Rightarrow>
             rasterize P charcode
               (if current_size t \<noteq> glyph_size then snd (set_font_size glyph_size t) else t)))"

definition get_glyph :: "platform \<Rightarrow> int \<Rightarrow> int \<Rightarrow> TTF \<Rightarrow> fault + (BitmapGlyph option \<times> TTF)" where
  "get_glyph P charcode glyph_size t = get_glyph_internal P charcode glyph_size t"

text \<open>A run of \<^verbatim>\<open>get_glyph\<close> calls, each given as (charcode, size); the last state.\<close>

fun get_glyphs :: "platform \<Rightarrow> (int \<times> int) list \<Rightarrow> TTF \<Rightarrow> fault + TTF" where
  "get_glyphs P [] t = Inr t"
| "get_glyphs P ((charcode, glyph_size) # calls) t =
     (case get_glyph P charcode glyph_size t of
        Inl f \<Rightarrow> Inl f
      | Inr (g, t1) \<Rightarrow> get_glyphs P calls t1)"

section \<open>Font engine: measuring a string\<close>

text \<open>The value of \<^verbatim>\<open>*str\<close>, a plain \<^verbatim>\<open>char\<close>, as the \<^verbatim>\<open>int32_t\<close> charcode.\<close>

definition char_code :: "platform \<Rightarrow> char \<Rightarrow> int" where
  "char_code P ch =
     (if CHAR_SIGNED P \<and> (128 :: int) \<le> of_char ch then of_char ch - 256 else of_char ch)"

text \<open>The two \<^verbatim>\<open>int16_t\<close> locals \<^verbatim>\<open>up\<close> and \<^verbatim>\<open>down\<close> of \<^verbatim>\<open>TTF::get_size\<close>.\<close>

definition ascent :: "BitmapGlyph \<Rightarrow> int" where
  "ascent g = int16_t (- yoff g)"

definition descent :: "BitmapGlyph \<Rightarrow> int" where
  "descent g = int16_t (height (dim g) + yoff g)"

text \<open>
  The loop of \<^verbatim>\<open>TTF::get_size\<close> over the bytes of the string, which ends at the
  first zero byte; the accumulator is (\<^verbatim>\<open>dim->width\<close>, \<^verbatim>\<open>max_up\<close>, \<^verbatim>\<open>max_down\<close>).
  Each addition to \<^verbatim>\<open>dim->width\<close> is stored in the field, so it is reduced to its
  width.
\<close>

fun get_size_loop :: "platform \<Rightarrow> string \<Rightarrow> int \<Rightarrow> int \<times> int \<times> int \<Rightarrow> TTF \<Rightarrow> fault + ((int \<times> int \<times> int) \<times> TTF)" where
  "get_size_loop P [] glyph_size acc t = Inr (acc, t)"
| "get_size_loop P (ch # str) glyph_size (w, max_up, max_down) t =
     (if ch = CHR 0x00 then Inr ((w, max_up, max_down), t)
      else
        (case get_glyph_internal P (char_code P ch) glyph_size t of
           Inl f \<Rightarrow> Inl f
         | Inr (None, t1) \<Rightarrow> get_size_loop P str glyph_size (w, max_up, max_down) t1
         | Inr (Some glyph, t1) \<Rightarrow>
             get_size_loop P str glyph_size
               (dim_t P (w + advance glyph),
                if ascent glyph > max_up then ascent glyph else max_up,
                if descent glyph > max_down then descent glyph else max_down) t1))"

definition get_size :: "platform \<Rightarrow> string \<Rightarrow> int \<Rightarrow> TTF \<Rightarrow> fault + (Dim \<times> TTF)" where
  "get_size P str glyph_size t =
     (case get_size_loop P str glyph_size (0, 0, 0) t of
        Inl f \<Rightarrow> Inl f
      | Inr ((w, max_up, max_down), t1) \<Rightarrow>
          Inr (\<lparr>width = w, height = dim_t P (max_up + max_down)\<rparr>, t1))"

text \<open>
  The glyphs that \<^verbatim>\<open>get_glyph_internal\<close> hands back for the characters of a
  string, one call after the other, characters without a glyph left out.
\<close>

fun glyphs_of :: "platform \<Rightarrow> string \<Rightarrow> int \<Rightarrow> TTF \<Rightarrow> fault + (BitmapGlyph list \<times> TTF)" where
  "glyphs_of P [] glyph_size t = Inr ([], t)"
| "glyphs_of P (ch # str) glyph_size t =
     (if ch = CHR 0x00 then Inr ([], t)
      else
        (case get_glyph_internal P (char_code P ch) glyph_size t of
           Inl f \<Rightarrow> Inl f
         | Inr (r, t1) \<Rightarrow>
             (case glyphs_of P str glyph_size t1 of
                Inl f \<Rightarrow> Inl f
              | Inr (gs, t2) \<Rightarrow> Inr ((case r of None \<Rightarrow> gs | Some g \<Rightarrow> g # gs), t2))))"

text \<open>
  The height of the tight bounding box as the specification words it: the largest
  ascent plus the largest descent of the glyphs.
\<close>

definition tight_height :: "BitmapGlyph list \<Rightarrow> int" where
  "tight_height gs = Max (set (map ascent gs)) + Max (set (map descent gs))"

section \<open>Font engine: construction\<close>

text \<open>
  \<^verbatim>\<open>TTF::set_font_face_from_memory\<close>: a face that is open is closed first; then
  FreeType opens the buffer.
\<close>

definition set_font_face_from_memory :: "platform \<Rightarrow> 8 word list \<Rightarrow> TTF \<Rightarrow> bool \<times> TTF" where
  "set_font_face_from_memory P buf t =
     (let t1 = (if face t \<noteq> None then clear_face t else t) in
      case ft_new_memory_face P buf of
        None \<Rightarrow>
          (False, emit (LOG_E ''The memory font format is unsupported or is broken.'' []) t1)
      | Some f \<Rightarrow> (True, t1\<lparr>face := Some f, memory_font := Some buf\<rparr>))"

text \<open>
  \<^verbatim>\<open>TTF::set_font_face_from_file\<close>: the file is opened, a buffer is allocated for
  its length, the file is read whole into it, and the buffer is handed to
  \<^verbatim>\<open>set_font_face_from_memory\<close>. The name of the file in the first error line is
  not kept.
\<close>

definition set_font_face_from_file :: "platform \<Rightarrow> string \<Rightarrow> TTF \<Rightarrow> fault + (bool \<times> TTF)" where
  "set_font_face_from_file P font_filename t =
     (let t1 = emit (LOG_D ''set_font_face_from_file() ...'' []) t in
      case fopen P font_filename of
        None \<Rightarrow>
          Inr (False,
               emit (LOG_E ''set_font_face_from_file: Unable to open font file '%s' '' []) t1)
      | Some len \<Rightarrow>
          (let t2 = emit (LOG_D ''Font File Length: %d'' [int len]) t1 in
           if \<not> heap_ok P (allocs t2) then Inl out_of_memory
           else
             (let t3 = t2\<lparr>allocs := Suc (allocs t2)\<rparr> in
              case fread P font_filename of
                None \<Rightarrow>
                  Inr (False,
                       emit (LOG_E ''set_font_face_from_file: Unable to read file content'' [])
                         t3)
              | Some bytes \<Rightarrow> Inr (set_font_face_from_memory P bytes t3))))"

text \<open>
  The object before the body of a constructor runs. The constructors do not set the
  cursor of the byte pool; it is not read before \<^verbatim>\<open>add_buff_to_byte_pool\<close> sets it,
  the list of chunks being empty until then.
\<close>

definition blank_TTF :: TTF where
  "blank_TTF = \<lparr>face = None, memory_font = None, current_size = - 1, cache = Map.empty,
                 byte_pools = [], byte_pool_idx = 0, fonts_cache_index = 0, allocs = 0,
                 trace = []\<rparr>"

text \<open>
  The two constructors, \<^verbatim>\<open>TTF(filename)\<close> and \<^verbatim>\<open>TTF(buffer, buffer_size)\<close>. The
  first aborts when the library cannot be initialised and forgets the buffer after the
  load; the second only logs, and FreeType then refuses the buffer.
\<close>

datatype font_source = File string | Memory "8 word list"

fun new_TTF :: "platform \<Rightarrow> font_source \<Rightarrow> fault + TTF" where
  "new_TTF P (File filename) =
     (if \<not> ft_init_ok P then Inl Abort
      else
        (case set_font_face_from_file P filename blank_TTF of
           Inl f \<Rightarrow> Inl f
         | Inr (ok, t) \<Rightarrow> Inr (t\<lparr>memory_font := None, current_size := - 1\<rparr>)))"
| "new_TTF P (Memory buf) =
     (if \<not> ft_init_ok P then
        Inr ((emit (LOG_E ''The memory font format is unsupported or is broken.'' [])
               (emit (LOG_E ''An error occurred during FreeType library initialization.'' [])
                  blank_TTF))\<lparr>current_size := - 1\<rparr>)
      else Inr ((snd (set_font_face_from_memory P buf blank_TTF))\<lparr>current_size := - 1\<rparr>))"

text \<open>
  Modelled from the spec: \<^verbatim>\<open>TTF::ready\<close> is declared in the header that is not among
  the sources. The registry opens the resource and treats a failure to open it as the
  failure of \<^verbatim>\<open>add\<close>: the face is ready when its font resource is open.
\<close>

definition ready :: "TTF \<Rightarrow> bool" where
  "ready t = (face t \<noteq> None)"

section \<open>Font registry: styles\<close>

datatype FaceStyle = NORMAL | BOLD | ITALIC | BOLD_ITALIC

text \<open>The value of a style as an integer, as the log lines print it.\<close>

fun FaceStyle_code :: "FaceStyle \<Rightarrow> int" where
  "FaceStyle_code NORMAL = 0"
| "FaceStyle_code BOLD = 1"
| "FaceStyle_code ITALIC = 2"
| "FaceStyle_code BOLD_ITALIC = 3"

text \<open>
  \<^verbatim>\<open>Fonts::adjust_font_style\<close>. The function is two \<^verbatim>\<open>if\<close>/\<^verbatim>\<open>else if\<close>
  blocks run one after the other: the first looks at \<open>font_style\<close>, the second at
  \<open>font_weight\<close>.
\<close>

definition adjust_italic :: "FaceStyle \<Rightarrow> FaceStyle \<Rightarrow> FaceStyle" where
  "adjust_italic style font_style =
     (if font_style = ITALIC then
        (if style = NORMAL then ITALIC
         else if style = BOLD then BOLD_ITALIC
         else style)
      else if font_style = NORMAL then
        (if style = BOLD_ITALIC then BOLD
         else if style = ITALIC then NORMAL
         else style)
      else style)"

definition adjust_weight :: "FaceStyle \<Rightarrow> FaceStyle \<Rightarrow> FaceStyle" where
  "adjust_weight style font_weight =
     (if font_weight = BOLD then
        (if style = ITALIC then BOLD_ITALIC
         else if style = NORMAL then BOLD
         else style)
      else if font_weight = NORMAL then
        (if style = BOLD then NORMAL
         else if style = BOLD_ITALIC then ITALIC
         else style)
      else style)"

definition adjust_font_style :: "FaceStyle \<Rightarrow> FaceStyle \<Rightarrow> FaceStyle \<Rightarrow> FaceStyle" where
  "adjust_font_style style font_style font_weight =
     adjust_weight (adjust_italic style font_style) font_weight"

text \<open>The two attributes that the four styles encode.\<close>

definition is_italic :: "FaceStyle \<Rightarrow> bool" where
  "is_italic s = (s = ITALIC \<or> s = BOLD_ITALIC)"

definition is_bold :: "FaceStyle \<Rightarrow> bool" where
  "is_bold s = (s = BOLD \<or> s = BOLD_ITALIC)"

section \<open>Font registry: entries\<close>

text \<open>
  \<^verbatim>\<open>Fonts::FontEntry\<close> and the registry. \<open>font\<close> is the \<^verbatim>\<open>TTF *\<close> of the
  entry; each entry owns its object, which is kept in the entry (\<open>None\<close>:
  \<^verbatim>\<open>nullptr\<close>). \<open>opened\<close> records the sources handed to a constructor and
  \<open>fonts_trace\<close> the lines logged; these two are not fields of the class.
\<close>

record FontEntry =
  name :: string
  font :: "TTF option"
  style :: FaceStyle

record Fonts =
  font_cache :: "FontEntry list"
  opened :: "font_source list"
  fonts_trace :: "event list"

text \<open>The loop at the head of both \<^verbatim>\<open>Fonts::add\<close>: is the font already loaded?\<close>

fun already_loaded :: "string \<Rightarrow> FaceStyle \<Rightarrow> FontEntry list \<Rightarrow> bool" where
  "already_loaded nm sty [] = False"
| "already_loaded nm sty (e # es) =
     (if nm = name e \<and> style e = sty then True else already_loaded nm sty es)"

text \<open>
  \<^verbatim>\<open>Fonts::add\<close>. The two overloads differ only in the constructor they call, which
  the source given selects here. \<^verbatim>\<open>new\<close> does not return a null pointer, so the
  branch that logs a failed allocation is not taken.
\<close>

definition add :: "platform \<Rightarrow> string \<Rightarrow> FaceStyle \<Rightarrow> font_source \<Rightarrow> Fonts \<Rightarrow> fault + (bool \<times> Fonts)" where
  "add P nm sty src r =
     (if already_loaded nm sty (font_cache r) then Inr (True, r)
      else
        (case new_TTF P src of
           Inl f \<Rightarrow> Inl f
         | Inr t \<Rightarrow>
             (let r1 = r\<lparr>opened := opened r @ [src]\<rparr> in
              if ready t then
                Inr (True,
                     r1\<lparr>font_cache := font_cache r @
                           [\<lparr>name = nm,
                             font = Some (t\<lparr>fonts_cache_index := int (length (font_cache r))\<rparr>),
                             style = sty\<rparr>],
                         fonts_trace := fonts_trace r @
                           [LOG_D ''Font %s added to cache at index %d and style %d.''
                              [int (length (font_cache r)), FaceStyle_code sty]]\<rparr>)
              else Inr (False, r1))))"

text \<open>How many entries the registry holds for a name and a style.\<close>

definition entries_for :: "string \<Rightarrow> FaceStyle \<Rightarrow> Fonts \<Rightarrow> nat" where
  "entries_for nm sty r = length (filter (\<lambda>e. name e = nm \<and> style e = sty) (font_cache r))"

text \<open>
  The loop of \<^verbatim>\<open>Fonts::clear\<close> with its counter \<open>i\<close>: an entry is deleted when
  \<open>all\<close> is set or from the sixth on (its pointer is dead from then on, \<open>None\<close>
  here), and has its glyph cache cleared otherwise.
\<close>

fun clear_loop :: "bool \<Rightarrow> nat \<Rightarrow> FontEntry list \<Rightarrow> fault + FontEntry list" where
  "clear_loop all i [] = Inr []"
| "clear_loop all i (e # es) =
     (if all \<or> i \<ge> 5 then
        (case clear_loop all (Suc i) es of
           Inl f \<Rightarrow> Inl f
         | Inr es' \<Rightarrow> Inr (e\<lparr>font := None\<rparr> # es'))
      else
        (case font e of
           None \<Rightarrow> Inl NullPointer
         | Some t \<Rightarrow>
             (case clear_loop all (Suc i) es of
                Inl f \<Rightarrow> Inl f
              | Inr es' \<Rightarrow> Inr (e\<lparr>font := Some (clear_cache t)\<rparr> # es'))))"

text \<open>\<^verbatim>\<open>vector::resize\<close>: entries beyond \<open>n\<close> go, missing ones are value-initialised.\<close>

definition resize :: "nat \<Rightarrow> FontEntry list \<Rightarrow> FontEntry list" where
  "resize n es = take n es @ replicate (n - length es) \<lparr>name = [], font = None, style = NORMAL\<rparr>"

text \<open>\<^verbatim>\<open>Fonts::clear\<close>; its body is compiled only with \<^verbatim>\<open>USE_EPUB_FONTS\<close>.\<close>

definition clear :: "platform \<Rightarrow> bool \<Rightarrow> Fonts \<Rightarrow> fault + Fonts" where
  "clear P all r =
     (if USE_EPUB_FONTS P then
        (case clear_loop all 0 (font_cache r) of
           Inl f \<Rightarrow> Inl f
         | Inr es \<Rightarrow> Inr (r\<lparr>font_cache := resize (if all then 0 else 5) es\<rparr>))
      else Inr r)"

text \<open>\<^verbatim>\<open>vector::at\<close>, which throws beyond the end.\<close>

definition vector_at :: "FontEntry list \<Rightarrow> nat \<Rightarrow> fault + FontEntry" where
  "vector_at es i = (if i < length es then Inr (es ! i) else Inl OutOfRange)"

text \<open>
  \<^verbatim>\<open>Fonts::get\<close>. The index is an \<^verbatim>\<open>int16_t\<close>; the comparison with
  \<^verbatim>\<open>font_cache.size()\<close> and the call of \<^verbatim>\<open>at\<close> convert it to \<^verbatim>\<open>size_t\<close>.
\<close>

definition get :: "platform \<Rightarrow> 16 word \<Rightarrow> Fonts \<Rightarrow> fault + (TTF option \<times> Fonts)" where
  "get P index r =
     (if size_t P (sint index) \<ge> length (font_cache r) then
        (case vector_at (font_cache r) 0 of
           Inl f \<Rightarrow> Inl f
         | Inr e \<Rightarrow>
             Inr (font e,
                  r\<lparr>fonts_trace := fonts_trace r @
                       [LOG_E ''Fonts.get(): Wrong index: %d vs size: %u''
                          [sint index, int (length (font_cache r))]]\<rparr>))
      else
        (case vector_at (font_cache r) (size_t P (sint index)) of
           Inl f \<Rightarrow> Inl f
         | Inr e \<Rightarrow> Inr (font e, r)))"

section \<open>Observing a call\<close>

text \<open>
  The events that a call added to the trace, and two questions about them: did the
  call configure the size of the face (\<^verbatim>\<open>FT_Set_Char_Size\<close>, made by
  \<^verbatim>\<open>set_font_size\<close> only), and did it rasterize (\<^verbatim>\<open>FT_Load_Glyph\<close> or
  \<^verbatim>\<open>FT_Render_Glyph\<close>)?
\<close>

fun is_set_size :: "event \<Rightarrow> bool" where
  "is_set_size (FT_Set_Char_Size h) = True"
| "is_set_size e = False"

fun is_rasterizing :: "event \<Rightarrow> bool" where
  "is_rasterizing (FT_Load_Glyph i) = True"
| "is_rasterizing (FT_Render_Glyph m) = True"
| "is_rasterizing e = False"

definition new_events :: "TTF \<Rightarrow> TTF \<Rightarrow> event list" where
  "new_events t t' = drop (length (trace t)) (trace t')"

definition sets_size :: "TTF \<Rightarrow> TTF \<Rightarrow> bool" where
  "sets_size t t' = list_ex is_set_size (new_events t t')"

definition rasterizes :: "TTF \<Rightarrow> TTF \<Rightarrow> bool" where
  "rasterizes t t' = list_ex is_rasterizing (new_events t t')"

text \<open>
  The cache holds glyphs of the face only: every charcode with a cached glyph has a
  glyph index in the open face. This holds of a new object and every operation keeps
  it.
\<close>

definition cache_sound :: "TTF \<Rightarrow> bool" where
  "cache_sound t =
     (\<forall>sz c g. cache_find (cache t) sz c = Some g \<longrightarrow>
        (\<exists>f. face t = Some f \<and> char_index f c \<noteq> 0))"

section \<open>The metrics of the face\<close>

text \<open>
  What FreeType produces for a charcode at a pixel size, whatever the state of the
  cache: the slot after loading at that size and, for an outline, rendering in the mode
  of the screen; \<open>None\<close> when the font has no glyph for the charcode or a step fails.
\<close>

definition face_slot :: "platform \<Rightarrow> FT_Face \<Rightarrow> int \<Rightarrow> int \<Rightarrow> FT_GlyphSlot option" where
  "face_slot P f glyph_size charcode =
     (if char_index f charcode = 0 then None
      else
        (case load f (Some (glyph_size * 64)) (char_index f charcode) of
           None \<Rightarrow> None
         | Some slot \<Rightarrow>
             if format_is_bitmap slot then Some slot
             else render f (screen_render_mode P) slot))"

text \<open>
  The characters of a C string, which ends at its first zero byte, and for a charcode
  the advance, the ascent and the descent that the face gives it at a size, in the
  arithmetic of \<^verbatim>\<open>get_glyph_internal\<close> and \<^verbatim>\<open>get_size\<close> (the rows of the
  bitmap pass through the field \<^verbatim>\<open>dim.height\<close> of the glyph); 0 for a charcode
  without a glyph.
\<close>

definition c_string :: "string \<Rightarrow> string" where
  "c_string str = takeWhile (\<lambda>ch. ch \<noteq> CHR 0x00) str"

definition char_advance :: "platform \<Rightarrow> FT_Face \<Rightarrow> int \<Rightarrow> int \<Rightarrow> int" where
  "char_advance P f glyph_size charcode =
     (case face_slot P f glyph_size charcode of
        None \<Rightarrow> 0 | Some slot \<Rightarrow> advance_x slot div 64)"

definition char_ascent :: "platform \<Rightarrow> FT_Face \<Rightarrow> int \<Rightarrow> int \<Rightarrow> int" where
  "char_ascent P f glyph_size charcode =
     (case face_slot P f glyph_size charcode of
        None \<Rightarrow> 0 | Some slot \<Rightarrow> int16_t (bitmap_top slot))"

definition char_descent :: "platform \<Rightarrow> FT_Face \<Rightarrow> int \<Rightarrow> int \<Rightarrow> int" where
  "char_descent P f glyph_size charcode =
     (case face_slot P f glyph_size charcode of
        None \<Rightarrow> 0
      | Some slot \<Rightarrow> int16_t (dim_t P (bitmap_rows slot) - bitmap_top slot))"

text \<open>
  Two facts about a face object that every call keeps and that hold of a new object.
  The glyphs in the cache under a size other than -1 carry the metrics that the face
  gives their charcode at that size (\<open>from_slot\<close>: the fields that \<^verbatim>\<open>get_size\<close>
  reads), and the face is configured to \<^verbatim>\<open>current_size\<close> unless that is -1. Under
  -1 the cache holds what was rasterized while no size had been accepted yet.
\<close>

definition from_slot :: "platform \<Rightarrow> FT_GlyphSlot \<Rightarrow> BitmapGlyph \<Rightarrow> bool" where
  "from_slot P slot g =
     (advance g = advance_x slot div 64 \<and> yoff g = - bitmap_top slot
      \<and> height (dim g) = dim_t P (bitmap_rows slot))"

definition cache_faithful :: "platform \<Rightarrow> TTF \<Rightarrow> bool" where
  "cache_faithful P t =
     (\<forall>sz c g. sz \<noteq> - 1 \<and> cache_find (cache t) sz c = Some g \<longrightarrow>
        (\<exists>f slot. face t = Some f \<and> face_slot P f sz c = Some slot \<and> from_slot P slot g))"

definition size_synced :: "TTF \<Rightarrow> bool" where
  "size_synced t =
     (\<forall>f. face t = Some f \<longrightarrow>
        current_size t = - 1 \<or> char_height f = Some (current_size t * 64))"

section \<open>A synthetic face\<close>

text \<open>
  A face with known metrics, for evaluating the functions on concrete inputs. It has
  three glyphs, for the charcodes 45 (a hyphen, one row high and sitting a third of the
  size above the baseline), 65 and 66 (as high and as wide as the size, standing on the
  baseline); it accepts every size and cannot load a glyph before a size is set.
\<close>

definition test_slot :: "int \<Rightarrow> int \<Rightarrow> int \<Rightarrow> FT_GlyphSlot" where
  "test_slot rows tp adv =
     \<lparr>metrics_width = 256, metrics_height = 64 * rows, format_is_bitmap = False,
      bitmap_pitch = 1, bitmap_rows = rows, bitmap_width = 4, bitmap_buffer = (\<lambda>i. 255),
      bitmap_left = 0, bitmap_top = tp, advance_x = 64 * adv\<rparr>"

definition test_face :: FT_Face where
  "test_face =
     \<lparr>char_index = (\<lambda>c. if c = 45 then 1 else if c = 65 then 2 else if c = 66 then 3 else 0),
      size_ok = (\<lambda>h. True),
      load = (\<lambda>h i. case h of
                None \<Rightarrow> None
              | Some hh \<Rightarrow>
                  if i = 1 then Some (test_slot 1 (hh div 192) (hh div 128))
                  else Some (test_slot (hh div 64) (hh div 64) (hh div 64))),
      render = (\<lambda>m s. Some s),
      char_height = None\<rparr>"

definition test_platform :: platform where
  "test_platform =
     \<lparr>BYTE_POOL_SIZE = 64, USE_EPUB_FONTS = True, CHAR_SIGNED = False, SIZE_T_BITS = 32,
      DIM_BITS = 16, DIM_SIGNED = False, pixel_res = ONE_BIT, heap_ok = (\<lambda>n. True), ft_init_ok = True,
      fopen = (\<lambda>fn. if fn = ''font.otf'' then Some 4 else None),
      fread = (\<lambda>fn. if fn = ''font.otf'' then Some [0, 1, 0, 0] else None),
      ft_new_memory_face = (\<lambda>b. if b = [0, 1, 0, 0] then Some test_face else None)\<rparr>"

definition test_TTF :: TTF where
  "test_TTF = blank_TTF\<lparr>face := Some test_face\<rparr>"

definition test_Fonts :: Fonts where
  "test_Fonts =
     \<lparr>font_cache =
        [\<lparr>name = ''Drawings'', font = Some test_TTF, style = NORMAL\<rparr>,
         \<lparr>name = ''Default'', font = Some (test_TTF\<lparr>fonts_cache_index := 1\<rparr>), style = NORMAL\<rparr>],
      opened = [], fonts_trace = []\<rparr>"

text \<open>The face object after one glyph request: a glyph in its cache, a chunk in its pool.\<close>

definition cached_TTF :: TTF where
  "cached_TTF =
     (case get_glyph test_platform 65 16 test_TTF of Inr (g, t) \<Rightarrow> t | Inl f \<Rightarrow> test_TTF)"

text \<open>A registry of the five resident faces and one font of a book.\<close>

definition six_Fonts :: Fonts where
  "six_Fonts =
     \<lparr>font_cache =
        [\<lparr>name = ''Drawings'', font = Some cached_TTF, style = NORMAL\<rparr>,
         \<lparr>name = ''Default'', font = Some cached_TTF, style = NORMAL\<rparr>,
         \<lparr>name = ''Default'', font = Some cached_TTF, style = BOLD\<rparr>,
         \<lparr>name = ''Default'', font = Some cached_TTF, style = ITALIC\<rparr>,
         \<lparr>name = ''Default'', font = Some cached_TTF, style = BOLD_ITALIC\<rparr>,
         \<lparr>name = ''Book'', font = Some cached_TTF, style = NORMAL\<rparr>],
      opened = [], fonts_trace = []\<rparr>"

text \<open>A registry of two fonts.\<close>

definition two_Fonts :: Fonts where
  "two_Fonts =
     \<lparr>font_cache =
        [\<lparr>name = ''Drawings'', font = Some cached_TTF, style = NORMAL\<rparr>,
         \<lparr>name = ''Default'', font = Some cached_TTF, style = NORMAL\<rparr>],
      opened = [], fonts_trace = []\<rparr>"

section \<open>Properties of the font registry\<close>

text \<open>
  C2. \<^verbatim>\<open>adjust_font_style\<close> follows the fixed truth table: a \<open>font_style\<close> of
  ITALIC takes NORMAL to ITALIC and BOLD to BOLD_ITALIC, a \<open>font_style\<close> of NORMAL takes
  ITALIC to NORMAL and BOLD_ITALIC to BOLD; a \<open>font_weight\<close> of BOLD takes NORMAL to BOLD
  and ITALIC to BOLD_ITALIC, a \<open>font_weight\<close> of NORMAL takes BOLD to NORMAL and
  BOLD_ITALIC to ITALIC. The italic adjustment decides the italic attribute of the result
  and leaves the bold one alone, the weight adjustment does the converse, and the two
  adjustments commute. NORMAL with (ITALIC, BOLD) gives BOLD_ITALIC, and BOLD_ITALIC with
  (NORMAL, NORMAL) gives NORMAL.
\<close>

theorem adjust_font_style_truth_table:
  "adjust_italic NORMAL ITALIC = ITALIC
   \<and> adjust_italic BOLD ITALIC = BOLD_ITALIC
   \<and> adjust_italic ITALIC NORMAL = NORMAL
   \<and> adjust_italic BOLD_ITALIC NORMAL = BOLD
   \<and> adjust_weight NORMAL BOLD = BOLD
   \<and> adjust_weight ITALIC BOLD = BOLD_ITALIC
   \<and> adjust_weight BOLD NORMAL = NORMAL
   \<and> adjust_weight BOLD_ITALIC NORMAL = ITALIC
   \<and> is_italic (adjust_font_style st fs fw) =
       (if fs = ITALIC then True
        else if fs = NORMAL then False
        else is_italic st)
   \<and> is_bold (adjust_font_style st fs fw) =
       (if fw = BOLD then True
        else if fw = NORMAL then False
        else is_bold st)
   \<and> is_bold (adjust_italic st fs) = is_bold st
   \<and> is_italic (adjust_weight st fw) = is_italic st
   \<and> adjust_font_style st fs fw =
       adjust_italic (adjust_weight st fw) fs
   \<and> adjust_font_style NORMAL ITALIC BOLD = BOLD_ITALIC
   \<and> adjust_font_style BOLD_ITALIC NORMAL NORMAL = NORMAL"
  by (cases st; cases fs; cases fw;
      simp add: adjust_font_style_def adjust_italic_def adjust_weight_def
                is_italic_def is_bold_def)

subsection \<open>Lookup by index\<close>

lemma size_t_neg:
  assumes "x < 0" "- (2 ^ SIZE_T_BITS P) \<le> x"
  shows "size_t P x = nat (x + 2 ^ SIZE_T_BITS P)"
proof -
  have "x mod 2 ^ SIZE_T_BITS P = (x + 2 ^ SIZE_T_BITS P) mod 2 ^ SIZE_T_BITS P" by simp
  also have "\<dots> = x + 2 ^ SIZE_T_BITS P" using assms by (intro mod_pos_pos_trivial) auto
  finally show ?thesis by (simp add: size_t_def)
qed

lemma size_t_nonneg:
  assumes "0 \<le> x" "x < 2 ^ SIZE_T_BITS P"
  shows "size_t P x = nat x"
  using assms by (simp add: size_t_def)

lemma sint16_bounds: "- 32768 \<le> sint (i :: 16 word)" "sint (i:: 16 word) < 32768"
  using sint_ge[of i] sint_lt[of i] by simp_all

lemma negative_index_out_of_range:
  assumes ne: "font_cache r \<noteq> []"
    and fits: "int (length (font_cache r)) + 32768 \<le> 2 ^ SIZE_T_BITS P"
    and neg: "sint (index :: 16 word) < 0"
  shows "length (font_cache r) \<le> size_t P (sint index)"
proof -
  have lo: "- 32768 \<le> sint index" by (rule sint16_bounds(1))
  have "- (2 ^ SIZE_T_BITS P) \<le> sint index" using lo fits by linarith
  then have "size_t P (sint index) = nat (sint index + 2 ^ SIZE_T_BITS P)"
    using neg by (simp add: size_t_neg)
  then show ?thesis using lo fits by linarith
qed

lemma get_takes_fallback:
  assumes ne: "font_cache r \<noteq> []"
    and oor: "length (font_cache r) \<le> size_t P (sint index)"
  shows "get P index r =
           Inr (font (font_cache r ! 0),
                r\<lparr>fonts_trace := fonts_trace r @
                     [LOG_E ''Fonts.get(): Wrong index: %d vs size: %u''
                        [sint index, int (length (font_cache r))]]\<rparr>)"
  using assms by (simp add: get_def vector_at_def)

lemma get_never_faults:
  assumes ne: "font_cache r \<noteq> []"
  shows "get P index r \<noteq> Inl f"
  using assms by (simp add: get_def vector_at_def)

text \<open>
  C6. On a registry that is not empty, \<^verbatim>\<open>Fonts::get\<close> with an index in range returns
  the font of the entry at that index and leaves the registry as it is; with any other
  index it logs the error and returns the font of the entry at index 0; it never ends in
  a fault. The registry is assumed to leave the top \<open>2^15\<close> values of \<^verbatim>\<open>size_t\<close>
  unused, as every vector does on a target of 32 or 64 bits.
\<close>

theorem Fonts_get_index_fallback:
  assumes ne: "font_cache r \<noteq> []"
    and fits: "int (length (font_cache r)) + 32768 \<le> 2 ^ SIZE_T_BITS P"
  shows "(if 0 \<le> sint index \<and> sint index < int (length (font_cache r))
          then get P index r = Inr (font (font_cache r ! nat (sint index)), r)
          else get P index r =
                 Inr (font (font_cache r ! 0),
                      r\<lparr>fonts_trace := fonts_trace r @
                           [LOG_E ''Fonts.get(): Wrong index: %d vs size: %u''
                              [sint index, int (length (font_cache r))]]\<rparr>))
         \<and> (\<forall>f. get P index r \<noteq> Inl f)"
proof -
  have hi: "sint index < 32768" by (rule sint16_bounds(2))
  have small: "sint index < 2 ^ SIZE_T_BITS P" using hi fits by linarith
  show ?thesis
  proof (cases "sint index < 0")
    case True
    then show ?thesis
      using get_takes_fallback[OF ne negative_index_out_of_range[OF ne fits True]]
        get_never_faults[OF ne]
      by simp
  next
    case False
    then have conv: "size_t P (sint index) = nat (sint index)"
      using small by (simp add: size_t_nonneg)
    show ?thesis
    proof (cases "sint index < int (length (font_cache r))")
      case True
      then have "get P index r = Inr (font (font_cache r ! nat (sint index)), r)"
        using False conv ne by (simp add: get_def vector_at_def)
      then show ?thesis using True False by simp
    next
      case False
      then have "length (font_cache r) \<le> size_t P (sint index)" using conv by linarith
      then show ?thesis
        using False get_takes_fallback[OF ne] get_never_faults[OF ne] by simp
    qed
  qed
qed

theorem Fonts_get_index_fallback_witness:
  "font_cache test_Fonts \<noteq> []
   \<and> int (length (font_cache test_Fonts)) + 32768 \<le> 2 ^ SIZE_T_BITS test_platform
   \<and> get test_platform 7 test_Fonts =
        Inr (Some test_TTF,
             test_Fonts\<lparr>fonts_trace := [LOG_E ''Fonts.get(): Wrong index: %d vs size: %u'' [7, 2]]\<rparr>)
   \<and> get test_platform 1 test_Fonts = Inr (Some (test_TTF\<lparr>fonts_cache_index := 1\<rparr>), test_Fonts)"
  using Fonts_get_index_fallback [of test_Fonts test_platform 7]
    Fonts_get_index_fallback [of test_Fonts test_platform 1]
  by (simp add: test_Fonts_def test_platform_def)

text \<open>
  C9. On a registry that is not empty, every negative index is classified as out of
  range by the comparison of \<^verbatim>\<open>Fonts::get\<close>: converted to \<^verbatim>\<open>size_t\<close> it is at
  least the size of the container. The call takes the fallback and returns the font of
  the entry at index 0; the entries of the registry are as before. The assumption on
  the size is that of C6.
\<close>

theorem Fonts_get_negative_index:
  assumes ne: "font_cache r \<noteq> []"
    and fits: "int (length (font_cache r)) + 32768 \<le> 2 ^ SIZE_T_BITS P"
    and neg: "sint index < 0"
  shows "length (font_cache r) \<le> size_t P (sint index)
         \<and> (\<exists>r'. get P index r = Inr (font (font_cache r ! 0), r')
                  \<and> font_cache r' = font_cache r)"
  using get_takes_fallback[OF ne negative_index_out_of_range[OF ne fits neg]]
    negative_index_out_of_range[OF ne fits neg]
  by simp

theorem Fonts_get_negative_index_witness:
  "font_cache test_Fonts \<noteq> []
   \<and> int (length (font_cache test_Fonts)) + 32768 \<le> 2 ^ SIZE_T_BITS test_platform
   \<and> sint (- 1 :: 16 word) < 0
   \<and> length (font_cache test_Fonts) \<le> size_t test_platform (sint (- 1 :: 16 word))
   \<and> (\<exists>r'. get test_platform (- 1) test_Fonts = Inr (Some test_TTF, r'))"
  using Fonts_get_negative_index [of test_Fonts test_platform "- 1"]
  by (auto simp add: test_Fonts_def test_platform_def)

section \<open>Properties of the font engine\<close>

subsection \<open>A face that is not open\<close>

text \<open>
  C10. On a face whose font resource is not open, \<^verbatim>\<open>get_glyph\<close> returns null for
  every charcode and size and leaves the whole object as it was: no FreeType call is
  recorded and the glyph cache is the same. The face is in that state after
  \<^verbatim>\<open>clear_face\<close>.
\<close>

theorem get_glyph_closed_face:
  "(face t = None \<longrightarrow> get_glyph P charcode glyph_size t = Inr (None, t))
   \<and> face (clear_face t) = None
   \<and> get_glyph P charcode glyph_size (clear_face t) = Inr (None, clear_face t)"
  by (simp add: get_glyph_def get_glyph_internal_def clear_face_def Let_def emit_def)

theorem get_glyph_closed_face_witness:
  "face blank_TTF = None
   \<and> get_glyph test_platform 65 16 blank_TTF = Inr (None, blank_TTF)"
  using get_glyph_closed_face [of blank_TTF test_platform 65 16]
  by (simp add: blank_TTF_def)

subsection \<open>The byte pool\<close>

lemma byte_pool_alloc_step:
  assumes "unat sz \<le> BYTE_POOL_SIZE P"
    and "byte_pool_alloc P sz t = Inr (buff, t1)"
  shows "(if byte_pools t = [] \<or> byte_pool_idx t + unat sz > BYTE_POOL_SIZE P
          then byte_pools t1 = Map.empty # byte_pools t \<and> snd buff = 0
          else byte_pools t1 = byte_pools t \<and> snd buff = byte_pool_idx t)
         \<and> fst buff = length (byte_pools t1) - 1
         \<and> byte_pools t1 \<noteq> []
         \<and> byte_pool_idx t1 = snd buff + unat sz
         \<and> byte_pool_idx t1 \<le> BYTE_POOL_SIZE P"
  using assms
  by (auto simp add: byte_pool_alloc_def add_buff_to_byte_pool_def emit_def
           split: if_splits)

lemma byte_pool_alloc_no_abort:
  assumes "unat sz \<le> BYTE_POOL_SIZE P"
  shows "byte_pool_alloc P sz t \<noteq> Inl Abort"
  using assms
  by (auto simp add: byte_pool_alloc_def add_buff_to_byte_pool_def out_of_memory_def split: if_splits)

lemma byte_pool_alloc_total:
  assumes "unat sz \<le> BYTE_POOL_SIZE P" "\<forall>n. heap_ok P n"
  shows "\<exists>buff t1. byte_pool_alloc P sz t = Inr (buff, t1)"
  using assms
  by (auto simp add: byte_pool_alloc_def add_buff_to_byte_pool_def split: if_splits)

lemma byte_pool_allocs_no_abort:
  assumes "\<forall>sz \<in> set sizes. unat sz \<le> BYTE_POOL_SIZE P"
  shows "byte_pool_allocs P sizes t \<noteq> Inl Abort"
  using assms
proof (induction sizes arbitrary: t)
  case Nil
  then show ?case by simp
next
  case (Cons sz sizes)
  then show ?case
    using byte_pool_alloc_no_abort[of sz P t]
    by (auto split: sum.splits prod.splits)
qed

lemma byte_pool_allocs_total:
  assumes "\<forall>sz \<in> set sizes. unat sz \<le> BYTE_POOL_SIZE P" "\<forall>n. heap_ok P n"
  shows "\<exists>buffs t'. byte_pool_allocs P sizes t = Inr (buffs, t')"
  using assms
proof (induction sizes arbitrary: t)
  case Nil
  then show ?case by simp
next
  case (Cons sz sizes)
  obtain buff t1 where a: "byte_pool_alloc P sz t = Inr (buff, t1)"
    using byte_pool_alloc_total[of sz P t] Cons.prems by auto
  obtain buffs t2 where b: "byte_pool_allocs P sizes t1 = Inr (buffs, t2)"
    using Cons.IH[of t1] Cons.prems by auto
  show ?case using a b by simp
qed

lemma byte_pool_allocs_grow:
  assumes "byte_pool_allocs P sizes t = Inr (buffs, t')"
  shows "length (byte_pools t) \<le> length (byte_pools t')"
  using assms
proof (induction sizes arbitrary: t buffs)
  case Nil
  then show ?case by simp
next
  case (Cons sz sizes)
  then show ?case
    by (fastforce simp add: byte_pool_alloc_def add_buff_to_byte_pool_def emit_def
          split: sum.splits prod.splits if_splits)
qed

lemma byte_pool_allocs_buffers:
  assumes "\<forall>sz \<in> set sizes. unat sz \<le> BYTE_POOL_SIZE P"
    and "byte_pool_allocs P sizes t = Inr (buffs, t')"
  shows "list_all2 (\<lambda>buff sz. fst buff < length (byte_pools t')
                       \<and> snd buff + unat sz \<le> BYTE_POOL_SIZE P) buffs sizes
         \<and> (sizes \<noteq> [] \<longrightarrow> byte_pools t' \<noteq> [] \<and> byte_pool_idx t' \<le> BYTE_POOL_SIZE P)"
  using assms
proof (induction sizes arbitrary: t buffs)
  case Nil
  then show ?case by simp
next
  case (Cons sz sizes)
  from Cons.prems(2) obtain buff t1 bs where
    a: "byte_pool_alloc P sz t = Inr (buff, t1)" and
    b: "byte_pool_allocs P sizes t1 = Inr (bs, t')" and
    c: "buffs = buff # bs"
    by (auto split: sum.splits prod.splits)
  have szok: "unat sz \<le> BYTE_POOL_SIZE P" using Cons.prems(1) by simp
  note step = byte_pool_alloc_step[OF szok a]
  have ih: "list_all2 (\<lambda>buff sz. fst buff < length (byte_pools t')
                       \<and> snd buff + unat sz \<le> BYTE_POOL_SIZE P) bs sizes
         \<and> (sizes \<noteq> [] \<longrightarrow> byte_pools t' \<noteq> [] \<and> byte_pool_idx t' \<le> BYTE_POOL_SIZE P)"
    using Cons.IH[OF _ b] Cons.prems(1) by simp
  have grow: "length (byte_pools t1) \<le> length (byte_pools t')"
    by (rule byte_pool_allocs_grow[OF b])
  have ne1: "byte_pools t1 \<noteq> []" using step by simp
  have fst_ok: "fst buff < length (byte_pools t')"
    using step ne1 grow by (cases "byte_pools t1") auto
  have snd_ok: "snd buff + unat sz \<le> BYTE_POOL_SIZE P" using step by simp
  have last: "byte_pools t' \<noteq> [] \<and> byte_pool_idx t' \<le> BYTE_POOL_SIZE P"
  proof (cases sizes)
    case Nil
    then have "t' = t1" using b by simp
    then show ?thesis using step by simp
  next
    case (Cons a list)
    then show ?thesis using ih by simp
  qed
  show ?case using c ih fst_ok snd_ok last by simp
qed

text \<open>
  C8. For every run of byte-pool allocations whose sizes are at most
  \<open>BYTE_POOL_SIZE\<close>: the run never aborts, and it returns when the heap serves every
  request; every buffer returned lies in one chunk of the pool, from its offset to its
  offset plus its size; after the run the cursor is at most the chunk size. Each step,
  from any state, opens a new chunk and starts at offset 0 exactly when the pool is
  empty or the cursor plus the size exceeds the chunk size, and otherwise starts at the
  cursor of the chunk in use; the buffer is in the newest chunk and the cursor moves
  past it.
\<close>

theorem byte_pool_alloc_in_one_chunk:
  assumes "\<forall>sz \<in> set sizes. unat sz \<le> BYTE_POOL_SIZE P"
  shows "byte_pool_allocs P sizes t \<noteq> Inl Abort
    \<and> ((\<forall>n. heap_ok P n) \<longrightarrow> (\<exists>buffs t'. byte_pool_allocs P sizes t = Inr (buffs, t')))
    \<and> (\<forall>buffs t'. byte_pool_allocs P sizes t = Inr (buffs, t') \<longrightarrow>
          list_all2 (\<lambda>buff sz. fst buff < length (byte_pools t')
                       \<and> snd buff + unat sz \<le> BYTE_POOL_SIZE P) buffs sizes
          \<and> (sizes \<noteq> [] \<longrightarrow> byte_pools t' \<noteq> [] \<and> byte_pool_idx t' \<le> BYTE_POOL_SIZE P))
    \<and> (\<forall>sz u buff u1. unat sz \<le> BYTE_POOL_SIZE P \<and> byte_pool_alloc P sz u = Inr (buff, u1) \<longrightarrow>
          (if byte_pools u = [] \<or> byte_pool_idx u + unat sz > BYTE_POOL_SIZE P
           then byte_pools u1 = Map.empty # byte_pools u \<and> snd buff = 0
           else byte_pools u1 = byte_pools u \<and> snd buff = byte_pool_idx u)
          \<and> fst buff = length (byte_pools u1) - 1
          \<and> byte_pool_idx u1 = snd buff + unat sz
          \<and> byte_pool_idx u1 \<le> BYTE_POOL_SIZE P)"
  using assms byte_pool_allocs_no_abort[of sizes P t] byte_pool_allocs_total[of sizes P t]
    byte_pool_allocs_buffers[of sizes P t] byte_pool_alloc_step[of _ P]
  by (intro conjI allI impI) (blast+)

theorem byte_pool_alloc_in_one_chunk_witness:
  "byte_pool_allocs test_platform [40, 30, 10] test_TTF \<noteq> Inl Abort
   \<and> (\<exists>t'. byte_pool_allocs test_platform [40, 30, 10] test_TTF
               = Inr ([(0, 0), (1, 0), (1, 30)], t')
          \<and> byte_pool_idx t' = 40 \<and> length (byte_pools t') = 2)"
proof -
  have sizes: "\<forall>sz \<in> set [40, 30, 10 :: 16 word]. unat sz \<le> BYTE_POOL_SIZE test_platform"
    by (simp add: test_platform_def)
  have run: "\<exists>t'. byte_pool_allocs test_platform [40, 30, 10] test_TTF
               = Inr ([(0, 0), (1, 0), (1, 30)], t')
          \<and> byte_pool_idx t' = 40 \<and> length (byte_pools t') = 2"
    by (simp add: byte_pool_alloc_def add_buff_to_byte_pool_def emit_def test_platform_def
          test_TTF_def blank_TTF_def)
  show ?thesis
    using byte_pool_alloc_in_one_chunk [OF sizes, of test_TTF, THEN conjunct1] run
    by (rule conjI)
qed

subsection \<open>What a call of \<^verbatim>\<open>get_glyph\<close> changes\<close>

lemma cache_find_put:
  "cache_find (cache_put c sz ch g) sz' ch' =
     (if sz' = sz \<and> ch' = ch then Some g else cache_find c sz' ch')"
  by (simp add: cache_find_def cache_put_def split: option.splits)

lemma set_font_size_keeps:
  "cache (snd (set_font_size sz t)) = cache t"
  "byte_pools (snd (set_font_size sz t)) = byte_pools t"
  "byte_pool_idx (snd (set_font_size sz t)) = byte_pool_idx t"
  "fonts_cache_index (snd (set_font_size sz t)) = fonts_cache_index t"
  "allocs (snd (set_font_size sz t)) = allocs t"
  by (simp_all add: set_font_size_def emit_def Let_def split: option.splits)

lemma set_font_size_face:
  assumes "face t = Some f"
  shows "face (snd (set_font_size sz t)) =
           Some (if size_ok f (sz * 64) then f\<lparr>char_height := Some (sz * 64)\<rparr> else f)"
  using assms by (simp add: set_font_size_def emit_def Let_def)

lemma set_font_size_current:
  assumes "face t = Some f"
  shows "current_size (snd (set_font_size sz t)) =
           (if size_ok f (sz * 64) then sz else current_size t)"
  using assms by (simp add: set_font_size_def emit_def Let_def)

lemma set_font_size_trace:
  assumes "face t = Some f"
  shows "trace (snd (set_font_size sz t)) =
           trace t @ FT_Set_Char_Size (sz * 64) #
             (if size_ok f (sz * 64) then [] else [LOG_E ''Unable to set font size.'' []])"
  using assms by (simp add: set_font_size_def emit_def Let_def)

lemma byte_pool_alloc_keeps:
  assumes "byte_pool_alloc P sz t = Inr (buff, t1)"
  shows "face t1 = face t \<and> cache t1 = cache t \<and> current_size t1 = current_size t
         \<and> (\<exists>evs. trace t1 = trace t @ evs \<and> \<not> list_ex is_set_size evs \<and> \<not> list_ex is_rasterizing evs)"
  using assms
  by (auto simp add: byte_pool_alloc_def add_buff_to_byte_pool_def emit_def
        split: if_splits)

lemma store_bitmap_keeps:
  assumes "store_bitmap P slot sz t = Inr (buff, t1)"
  shows "face t1 = face t \<and> cache t1 = cache t \<and> current_size t1 = current_size t
         \<and> (\<exists>evs. trace t1 = trace t @ evs \<and> \<not> list_ex is_set_size evs \<and> \<not> list_ex is_rasterizing evs)"
proof (cases "sz > 0")
  case False
  then show ?thesis using assms by (auto simp add: store_bitmap_def)
next
  case True
  then obtain b t0 where a: "byte_pool_alloc P (word_of_int sz) t = Inr (b, t0)"
    using assms by (auto simp add: store_bitmap_def split: sum.splits prod.splits)
  then obtain pool pools where "byte_pools t0 = pool # pools"
    and "t1 = t0\<lparr>byte_pools := memcpy (snd b) (bitmap_buffer slot) (nat sz) pool # pools\<rparr>"
    using assms True
    by (auto simp add: store_bitmap_def split: list.splits if_splits)
  then show ?thesis using byte_pool_alloc_keeps[OF a] by auto
qed

lemma finish_glyph_result:
  assumes "finish_glyph P charcode slot t = Inr (r, t1)"
  shows "\<exists>g. r = Some g \<and> face t1 = face t \<and> current_size t1 = current_size t
           \<and> cache t1 = cache_put (cache t) (current_size t) charcode g
           \<and> (\<exists>evs. trace t1 = trace t @ evs \<and> \<not> list_ex is_set_size evs)"
proof -
  obtain buff t0 where
    a: "store_bitmap P slot (bitmap_pitch slot * dim_t P (bitmap_rows slot)) t = Inr (buff, t0)"
    using assms by (auto simp add: finish_glyph_def split: sum.splits prod.splits)
  show ?thesis
    using assms store_bitmap_keeps[OF a] by (auto simp add: finish_glyph_def a Let_def)
qed

lemma rasterize_result:
  assumes "rasterize P charcode t = Inr (r, t1)"
  shows "face t1 = face t \<and> current_size t1 = current_size t
         \<and> (case r of
               None \<Rightarrow> cache t1 = cache t
             | Some g \<Rightarrow> cache t1 = cache_put (cache t) (current_size t) charcode g
                          \<and> (\<exists>f. face t = Some f \<and> char_index f charcode \<noteq> 0))
         \<and> (\<exists>evs. trace t1 = trace t @ evs \<and> \<not> list_ex is_set_size evs
                  \<and> (r \<noteq> None \<longrightarrow> list_ex is_rasterizing evs))"
proof (cases "face t")
  case None
  then show ?thesis using assms by (auto simp add: rasterize_def Let_def emit_def)
next
  case (Some f)
  show ?thesis
  proof (cases "char_index f charcode = 0")
    case True
    then show ?thesis using assms Some by (auto simp add: rasterize_def Let_def emit_def)
  next
    case nz: False
    show ?thesis
    proof (cases "load f (char_height f) (char_index f charcode)")
      case None
      then show ?thesis using assms Some nz by (auto simp add: rasterize_def Let_def emit_def)
    next
      case (Some slot)
      note slot = Some
      have ok: "heap_ok P (allocs t)"
        using assms \<open>face t = Some f\<close> nz slot
        by (auto simp add: rasterize_def Let_def emit_def split: if_splits)
      let ?t3 = "(emit (FT_Load_Glyph (char_index f charcode)) (emit (FT_Get_Char_Index charcode) t))\<lparr>allocs := Suc (allocs t)\<rparr>"
      show ?thesis
      proof (cases "format_is_bitmap slot")
        case True
        then have "finish_glyph P charcode slot ?t3 = Inr (r, t1)"
          using assms \<open>face t = Some f\<close> nz slot ok
          by (simp add: rasterize_def Let_def emit_def)
        from finish_glyph_result[OF this] show ?thesis
          using \<open>face t = Some f\<close> nz by (auto simp add: emit_def)
      next
        case nb: False
        show ?thesis
        proof (cases "render f (screen_render_mode P) slot")
          case None
          then show ?thesis using assms \<open>face t = Some f\<close> nz slot ok nb
            by (auto simp add: rasterize_def Let_def emit_def)
        next
          case (Some rendered)
          then have "finish_glyph P charcode rendered (emit (FT_Render_Glyph (screen_render_mode P)) ?t3) = Inr (r, t1)"
            using assms \<open>face t = Some f\<close> nz slot ok nb
            by (simp add: rasterize_def Let_def emit_def)
          from finish_glyph_result[OF this] show ?thesis
            using \<open>face t = Some f\<close> nz by (auto simp add: emit_def)
        qed
      qed
    qed
  qed
qed


lemma get_glyph_hit:
  assumes "face t \<noteq> None" "cache_find (cache t) glyph_size charcode = Some g"
  shows "get_glyph P charcode glyph_size t = Inr (Some g, t)"
  using assms by (simp add: get_glyph_def get_glyph_internal_def)

lemma get_glyph_miss:
  assumes "face t = Some f" "cache_find (cache t) glyph_size charcode = None"
  shows "get_glyph P charcode glyph_size t =
           rasterize P charcode
             (if current_size t \<noteq> glyph_size then snd (set_font_size glyph_size t) else t)"
  using assms by (simp add: get_glyph_def get_glyph_internal_def)

lemma get_glyph_miss_result:
  assumes f: "face t = Some f"
    and miss: "cache_find (cache t) glyph_size charcode = None"
    and run: "get_glyph P charcode glyph_size t = Inr (r, t1)"
  shows "(\<exists>h. face t1 = Some (f\<lparr>char_height := h\<rparr>))
         \<and> current_size t1 = (if current_size t = glyph_size \<or> size_ok f (glyph_size * 64)
                                then glyph_size else current_size t)
         \<and> (case r of
               None \<Rightarrow> cache t1 = cache t
             | Some g \<Rightarrow> cache t1 = cache_put (cache t) (current_size t1) charcode g
                          \<and> char_index f charcode \<noteq> 0)
         \<and> sets_size t t1 = (current_size t \<noteq> glyph_size)
         \<and> (r \<noteq> None \<longrightarrow> rasterizes t t1)"
proof -
  let ?t0 = "if current_size t \<noteq> glyph_size then snd (set_font_size glyph_size t) else t"
  have r0: "rasterize P charcode ?t0 = Inr (r, t1)"
    using get_glyph_miss[OF f miss] run by simp
  note res = rasterize_result[OF r0]
  have face0: "face ?t0 = Some (f\<lparr>char_height :=
                    (if current_size t \<noteq> glyph_size \<and> size_ok f (glyph_size * 64)
                     then Some (glyph_size * 64) else char_height f)\<rparr>)"
    using f by (simp add: set_font_size_face)
  have cur0: "current_size ?t0 = (if current_size t = glyph_size \<or> size_ok f (glyph_size * 64)
                                then glyph_size else current_size t)"
    using f by (simp add: set_font_size_current)
  have cache0: "cache ?t0 = cache t" by (simp add: set_font_size_keeps)
  have trace0: "trace ?t0 = trace t @ (if current_size t \<noteq> glyph_size
                   then FT_Set_Char_Size (glyph_size * 64) #
                          (if size_ok f (glyph_size * 64) then []
                           else [LOG_E ''Unable to set font size.'' []])
                   else [])"
    using f by (simp add: set_font_size_trace)
  from res obtain evs where evs: "trace t1 = trace ?t0 @ evs" "\<not> list_ex is_set_size evs"
    "r \<noteq> None \<longrightarrow> list_ex is_rasterizing evs"
    by blast
  have ft1: "face t1 = face ?t0" using res by blast
  have c1: "\<exists>h. face t1 = Some (f\<lparr>char_height := h\<rparr>)"
    unfolding ft1 face0 by blast
  have c2: "current_size t1 = (if current_size t = glyph_size \<or> size_ok f (glyph_size * 64)
                                then glyph_size else current_size t)"
    using res cur0 by simp
  have c3: "(case r of
               None \<Rightarrow> cache t1 = cache t
             | Some g \<Rightarrow> cache t1 = cache_put (cache t) (current_size t1) charcode g
                          \<and> char_index f charcode \<noteq> 0)"
    using res cache0 face0 by (auto split: option.splits if_splits)
  have c4: "sets_size t t1 = (current_size t \<noteq> glyph_size)"
    using evs trace0 by (simp add: sets_size_def new_events_def)
  have c5: "r \<noteq> None \<longrightarrow> rasterizes t t1"
    using evs trace0 by (simp add: rasterizes_def new_events_def)
  show ?thesis using c1 c2 c3 c4 c5 by blast
qed

lemma cache_sound_get_glyph:
  assumes "cache_sound t" "get_glyph P charcode glyph_size t = Inr (r, t1)"
  shows "cache_sound t1"
proof (cases "face t")
  case None
  then show ?thesis using assms by (simp add: get_glyph_def get_glyph_internal_def)
next
  case (Some f)
  show ?thesis
  proof (cases "cache_find (cache t) glyph_size charcode")
    case (Some g)
    then show ?thesis using assms \<open>face t = Some f\<close>
      by (simp add: get_glyph_def get_glyph_internal_def)
  next
    case None
    note res = get_glyph_miss_result[OF \<open>face t = Some f\<close> None assms(2)]
    from res obtain h where h: "face t1 = Some (f\<lparr>char_height := h\<rparr>)" by blast
    show ?thesis
    proof (cases r)
      case None
      then have "cache t1 = cache t" using res by simp
      then show ?thesis using assms(1) h \<open>face t = Some f\<close>
        unfolding cache_sound_def by fastforce
    next
      case (Some g)
      then have c: "cache t1 = cache_put (cache t) (current_size t1) charcode g"
        and nz: "char_index f charcode \<noteq> 0" using res by simp_all
      show ?thesis
        unfolding cache_sound_def
      proof (intro allI impI)
        fix sz c' g'
        assume a: "cache_find (cache t1) sz c' = Some g'"
        show "\<exists>fa. face t1 = Some fa \<and> char_index fa c' \<noteq> 0"
        proof (cases "sz = current_size t1 \<and> c' = charcode")
          case True
          then show ?thesis using h nz by simp
        next
          case False
          then have "cache_find (cache t) sz c' = Some g'"
            using a c by (simp add: cache_find_put split: if_splits)
          then show ?thesis using assms(1) h \<open>face t = Some f\<close>
            unfolding cache_sound_def by fastforce
        qed
      qed
    qed
  qed
qed

lemma cache_sound_blank: "cache_sound (blank_TTF\<lparr>face := x\<rparr>)"
  by (simp add: cache_sound_def blank_TTF_def cache_find_def)

lemma cache_sound_clear_cache: "cache_sound (clear_cache t)"
  by (simp add: cache_sound_def clear_cache_def cache_find_def)

lemma new_TTF_fresh:
  assumes "new_TTF P src = Inr t"
  shows "cache t = Map.empty \<and> byte_pools t = [] \<and> current_size t = - 1"
proof (cases src)
  case (File filename)
  then show ?thesis using assms
    by (auto simp add: set_font_face_from_file_def set_font_face_from_memory_def emit_def
          blank_TTF_def Let_def split: if_splits option.splits sum.splits)
next
  case (Memory buf)
  then show ?thesis using assms
    by (auto simp add: set_font_face_from_memory_def emit_def blank_TTF_def Let_def
          split: if_splits option.splits)
qed

lemma cache_sound_new_TTF:
  assumes "new_TTF P src = Inr t"
  shows "cache_sound t"
  using new_TTF_fresh[OF assms] by (simp add: cache_sound_def cache_find_def)


lemma rasterize_not_found:
  assumes "face t = Some f" "char_index f charcode = 0"
  shows "rasterize P charcode t =
           Inr (None, emit (LOG_E ''Charcode not found in face: %d, font_index: %d''
                              [charcode, fonts_cache_index t])
                        (emit (FT_Get_Char_Index charcode) t))"
  using assms by (auto simp add: rasterize_def Let_def split: option.splits)

lemma cache_sound_miss:
  assumes "cache_sound t" "face t = Some f" "char_index f charcode = 0"
  shows "cache_find (cache t) glyph_size charcode = None"
proof (cases "cache_find (cache t) glyph_size charcode")
  case None
  then show ?thesis .
next
  case (Some g)
  then show ?thesis using assms unfolding cache_sound_def by fastforce
qed

subsection \<open>A charcode without a glyph\<close>

text \<open>
  C7. On an open face, for every charcode for which the font reports the glyph index
  0, \<^verbatim>\<open>get_glyph\<close> returns null, the last line it logs is the miss, and the glyph
  cache and the byte pool are left as they were; nothing is rasterized. The events of
  the call are the size change (when the size asked differs from the current one), the
  lookup of the index and the log line. The cache is assumed sound, which holds of a new
  object and is kept by every call (\<open>cache_sound_new_TTF\<close>,
  \<open>cache_sound_clear_cache\<close>, \<open>cache_sound_get_glyph\<close>).
\<close>

theorem get_glyph_unknown_charcode:
  assumes open_face: "face t = Some f"
    and no_glyph: "char_index f charcode = 0"
    and sound: "cache_sound t"
  shows "\<exists>t'. get_glyph P charcode glyph_size t = Inr (None, t')
           \<and> cache t' = cache t
           \<and> byte_pools t' = byte_pools t
           \<and> trace t' =
               trace t
               @ (if current_size t = glyph_size then []
                  else FT_Set_Char_Size (glyph_size * 64) #
                         (if size_ok f (glyph_size * 64) then []
                          else [LOG_E ''Unable to set font size.'' []]))
               @ [FT_Get_Char_Index charcode,
                  LOG_E ''Charcode not found in face: %d, font_index: %d''
                    [charcode, fonts_cache_index t]]
           \<and> \<not> rasterizes t t'"
proof -
  let ?t0 = "if current_size t \<noteq> glyph_size then snd (set_font_size glyph_size t) else t"
  have miss: "cache_find (cache t) glyph_size charcode = None"
    by (rule cache_sound_miss[OF sound open_face no_glyph])
  have "\<exists>f0. face ?t0 = Some f0 \<and> char_index f0 charcode = 0"
    using open_face no_glyph by (simp add: set_font_size_face)
  then obtain f0 where f0: "face ?t0 = Some f0" and ci: "char_index f0 charcode = 0"
    by blast
  have run: "get_glyph P charcode glyph_size t =
               Inr (None, emit (LOG_E ''Charcode not found in face: %d, font_index: %d''
                                  [charcode, fonts_cache_index ?t0])
                            (emit (FT_Get_Char_Index charcode) ?t0))"
    using open_face miss rasterize_not_found[OF f0 ci]
    by (simp add: get_glyph_def get_glyph_internal_def)
  show ?thesis
    unfolding run using open_face
    by (simp add: emit_def set_font_size_keeps set_font_size_trace rasterizes_def
          new_events_def)
qed


theorem get_glyph_unknown_charcode_witness:
  "face test_TTF = Some test_face
   \<and> char_index test_face 90 = 0
   \<and> cache_sound test_TTF
   \<and> (\<exists>t'. get_glyph test_platform 90 16 test_TTF = Inr (None, t')
          \<and> cache t' = cache test_TTF
          \<and> trace t' = [FT_Set_Char_Size 1024, FT_Get_Char_Index 90,
                         LOG_E ''Charcode not found in face: %d, font_index: %d'' [90, 0]])"
proof -
  have a: "face test_TTF = Some test_face" by (simp add: test_TTF_def)
  have b: "char_index test_face 90 = 0" by (simp add: test_face_def)
  have c: "cache_sound test_TTF" unfolding test_TTF_def by (rule cache_sound_blank)
  show ?thesis
    using a b c get_glyph_unknown_charcode [OF a b c, of test_platform 16]
    by (auto simp add: test_TTF_def blank_TTF_def test_face_def)
qed

subsection \<open>Evaluation on the synthetic face\<close>

lemmas engine_defs =
  get_glyph_def get_glyph_internal_def rasterize_def finish_glyph_def store_bitmap_def
  byte_pool_alloc_def add_buff_to_byte_pool_def set_font_size_def emit_def cache_find_def
  cache_put_def screen_render_mode_def dim_t_def Let_def

lemmas test_defs = test_platform_def test_TTF_def blank_TTF_def test_face_def test_slot_def

subsection \<open>Caching and the size of the face\<close>

lemma get_glyph_sets_size:
  assumes f: "face u = Some fu" and run: "get_glyph P c s u = Inr (r, u')"
  shows "sets_size u u' = (cache_find (cache u) s c = None \<and> current_size u \<noteq> s)"
proof (cases "cache_find (cache u) s c")
  case None
  then show ?thesis using get_glyph_miss_result[OF f None run] by simp
next
  case (Some g)
  then have "u' = u" using get_glyph_hit[of u s c g P] f run by simp
  then show ?thesis using Some by (simp add: sets_size_def new_events_def)
qed

lemma get_glyph_keeps_entry:
  assumes f: "face u = Some fu"
    and ok: "current_size u = s' \<or> size_ok fu (s' * 64)"
    and entry: "cache_find (cache u) s c = Some g"
    and run: "get_glyph P c' s' u = Inr (r, u')"
  shows "cache_find (cache u') s c = Some g \<and> (\<exists>h. face u' = Some (fu\<lparr>char_height := h\<rparr>))"
proof (cases "cache_find (cache u) s' c'")
  case (Some g')
  then have same: "u' = u" using get_glyph_hit[of u s' c' g' P] f run by simp
  have "face u = Some (fu\<lparr>char_height := char_height fu\<rparr>)" using f by simp
  then have "\<exists>h. face u = Some (fu\<lparr>char_height := h\<rparr>)" by (rule exI)
  then show ?thesis using same entry by simp
next
  case None
  note res = get_glyph_miss_result[OF f None run]
  have cur: "current_size u' = s'" using res ok by auto
  have differs: "\<not> (s = s' \<and> c = c')" using None entry by auto
  have "cache_find (cache u') s c = Some g"
  proof (cases r)
    case None
    then show ?thesis using res entry by simp
  next
    case (Some g')
    then have "cache u' = cache_put (cache u) s' c' g'" using res cur by simp
    then show ?thesis using differs entry by (auto simp add: cache_find_put)
  qed
  then show ?thesis using res by blast
qed

lemma get_glyphs_keep_entry:
  assumes "get_glyphs P calls u = Inr u'"
    and "face u = Some (f\<lparr>char_height := h\<rparr>)"
    and "\<forall>(c', s') \<in> set calls. size_ok f (s' * 64)"
    and "cache_find (cache u) s c = Some g"
  shows "cache_find (cache u') s c = Some g \<and> (\<exists>h'. face u' = Some (f\<lparr>char_height := h'\<rparr>))"
  using assms
proof (induction calls arbitrary: u h)
  case Nil
  then show ?case by auto
next
  case (Cons call calls)
  obtain c' s' where call: "call = (c', s')" by (cases call)
  from Cons.prems(1) call obtain r u1 where
    step: "get_glyph P c' s' u = Inr (r, u1)" and rest: "get_glyphs P calls u1 = Inr u'"
    by (auto split: sum.splits prod.splits)
  have ok: "size_ok (f\<lparr>char_height := h\<rparr>) (s' * 64)" using Cons.prems(3) call by simp
  from get_glyph_keeps_entry[OF Cons.prems(2) disjI2[OF ok] Cons.prems(4) step]
  obtain h1 where e1: "cache_find (cache u1) s c = Some g"
    and f1: "face u1 = Some (f\<lparr>char_height := h1\<rparr>)"
    by auto
  show ?case
    using Cons.IH[OF rest f1 _ e1] Cons.prems(3) by simp
qed

text \<open>
  C3, as the code has it. On an open face, take a call \<^verbatim>\<open>get_glyph(c, s)\<close> that
  returns a glyph, the size \<open>s\<close> being the current one or accepted by the face. If
  \<open>(s, c)\<close> was not in the cache the call rasterizes, and it configures the size
  exactly when \<open>s\<close> differs from the current size; if it was, the call changes
  nothing. Either way the glyph is then in the cache under \<open>(s, c)\<close>, it stays there
  through any further calls whose sizes the face accepts, and a later call with the same
  \<open>(c, s)\<close> returns that glyph and leaves the whole object as it is: no FreeType
  call, no rasterization. In general a call on an open face configures the size exactly
  when the glyph asked for is not cached and the size asked differs from the current one.
\<close>

theorem get_glyph_cached_after_first_call:
  assumes open_face: "face t = Some f"
    and first: "get_glyph P charcode glyph_size t = Inr (Some g, t1)"
    and size_first: "current_size t = glyph_size \<or> size_ok f (glyph_size * 64)"
    and between: "get_glyphs P calls t1 = Inr t2"
    and sizes_between: "\<forall>(c, s) \<in> set calls. size_ok f (s * 64)"
  shows "(if cache_find (cache t) glyph_size charcode = None
          then rasterizes t t1 \<and> sets_size t t1 = (current_size t \<noteq> glyph_size)
          else t1 = t)
       \<and> cache_find (cache t1) glyph_size charcode = Some g
       \<and> cache_find (cache t2) glyph_size charcode = Some g
       \<and> get_glyph P charcode glyph_size t2 = Inr (Some g, t2)
       \<and> (\<forall>u c s r u'. face u \<noteq> None \<and> get_glyph P c s u = Inr (r, u') \<longrightarrow>
             sets_size u u' = (cache_find (cache u) s c = None \<and> current_size u \<noteq> s))"
proof -
  let ?A = "(if cache_find (cache t) glyph_size charcode = None
          then rasterizes t t1 \<and> sets_size t t1 = (current_size t \<noteq> glyph_size)
          else t1 = t)"
  have abf: "?A \<and> cache_find (cache t1) glyph_size charcode = Some g
             \<and> (\<exists>h. face t1 = Some (f\<lparr>char_height := h\<rparr>))"
  proof (cases "cache_find (cache t) glyph_size charcode")
    case None
    note res = get_glyph_miss_result[OF open_face None first]
    have cur: "current_size t1 = glyph_size" using res size_first by auto
    have "cache t1 = cache_put (cache t) glyph_size charcode g" using res cur by simp
    then have 1: "cache_find (cache t1) glyph_size charcode = Some g"
      by (simp add: cache_find_put)
    have 2: ?A using res None by simp
    have 3: "\<exists>h. face t1 = Some (f\<lparr>char_height := h\<rparr>)" using res by blast
    show ?thesis using 1 2 3 by blast
  next
    case (Some g')
    have "get_glyph P charcode glyph_size t = Inr (Some g', t)"
      using get_glyph_hit[of t glyph_size charcode g' P] open_face Some by simp
    then have same: "g' = g \<and> t1 = t" using first by simp
    have 1: "cache_find (cache t1) glyph_size charcode = Some g" using Some same by simp
    have 2: ?A using same Some by simp
    have "face t = Some (f\<lparr>char_height := char_height f\<rparr>)" using open_face by simp
    then have "\<exists>h. face t = Some (f\<lparr>char_height := h\<rparr>)" by (rule exI)
    then have 3: "\<exists>h. face t1 = Some (f\<lparr>char_height := h\<rparr>)" using same by simp
    show ?thesis using 1 2 3 by blast
  qed
  then have a: ?A and b: "cache_find (cache t1) glyph_size charcode = Some g"
    and f1: "\<exists>h. face t1 = Some (f\<lparr>char_height := h\<rparr>)"
    by blast+
  from f1 obtain h where fh: "face t1 = Some (f\<lparr>char_height := h\<rparr>)" by blast
  note keep = get_glyphs_keep_entry[OF between fh sizes_between b]
  have c: "cache_find (cache t2) glyph_size charcode = Some g" using keep by simp
  have "face t2 \<noteq> None" using keep by auto
  then have d: "get_glyph P charcode glyph_size t2 = Inr (Some g, t2)"
    using c by (simp add: get_glyph_hit)
  have e: "\<forall>u c s r u'. face u \<noteq> None \<and> get_glyph P c s u = Inr (r, u') \<longrightarrow>
             sets_size u u' = (cache_find (cache u) s c = None \<and> current_size u \<noteq> s)"
    using get_glyph_sets_size by blast
  show ?thesis using a b c d e by blast
qed


theorem get_glyph_cached_after_first_call_witness:
  "face test_TTF = Some test_face
   \<and> (\<exists>g t1 t2. get_glyph test_platform 65 16 test_TTF = Inr (Some g, t1)
         \<and> get_glyphs test_platform [(66, 20), (45, 16)] t1 = Inr t2
         \<and> rasterizes test_TTF t1
         \<and> sets_size test_TTF t1
         \<and> cache_find (cache t2) 16 65 = Some g
         \<and> get_glyph test_platform 65 16 t2 = Inr (Some g, t2)
         \<and> advance g = 16)"
proof -
  let ?g = "the (fst (projr (get_glyph test_platform 65 16 test_TTF)))"
  let ?t1 = "snd (projr (get_glyph test_platform 65 16 test_TTF))"
  let ?calls = "[(66, 20), (45, 16)] :: (int \<times> int) list"
  let ?t2 = "projr (get_glyphs test_platform ?calls ?t1)"
  have a: "face test_TTF = Some test_face" by (simp add: test_TTF_def)
  have first: "get_glyph test_platform 65 16 test_TTF = Inr (Some ?g, ?t1)"
    by (simp add: engine_defs test_defs)
  have size_first: "current_size test_TTF = 16 \<or> size_ok test_face (16 * 64)"
    by (simp add: test_face_def)
  have between: "get_glyphs test_platform ?calls ?t1 = Inr ?t2"
    by (simp add: engine_defs test_defs)
  have sizes: "\<forall>(c, s) \<in> set ?calls. size_ok test_face (s * 64)"
    by (simp add: test_face_def)
  have miss: "cache_find (cache test_TTF) 16 65 = None"
    by (simp add: cache_find_def test_defs)
  have cur: "current_size test_TTF \<noteq> 16" by (simp add: test_defs)
  have adv: "advance ?g = 16" by (simp add: engine_defs test_defs)
  note amended = get_glyph_cached_after_first_call [OF a first size_first between sizes]
  have "rasterizes test_TTF ?t1 \<and> sets_size test_TTF ?t1"
    using amended miss cur by simp
  moreover have "cache_find (cache ?t2) 16 65 = Some ?g" using amended by blast
  moreover have "get_glyph test_platform 65 16 ?t2 = Inr (Some ?g, ?t2)" using amended by blast
  ultimately show ?thesis using a first between adv by blast
qed

text \<open>
  The claim C3 as stated fails: after glyphs at sizes 16 and then 20, the request for the
  glyph cached at size 16 differs in size from the last one used, and the face is not
  configured again.
\<close>

theorem get_glyph_reconfigure_counterexample:
  "\<exists>u u' r. get_glyphs test_platform [(65, 16), (66, 20)] test_TTF = Inr u
      \<and> get_glyph test_platform 65 16 u = Inr (r, u')
      \<and> \<not> (sets_size u u' \<longleftrightarrow> 16 \<noteq> current_size u)"
  by (simp add: engine_defs test_defs sets_size_def new_events_def)

subsection \<open>Measuring a string\<close>

lemma dim_t_zero [simp]: "dim_t P 0 = 0"
  by (simp add: dim_t_def)

lemma signed_take_bit_add_left:
  "signed_take_bit n (signed_take_bit n a + b) = signed_take_bit n (a + b :: int)"
proof -
  have "take_bit (Suc n) (signed_take_bit n a + b)
          = take_bit (Suc n) (take_bit (Suc n) (signed_take_bit n a) + take_bit (Suc n) b)"
    by (simp only: take_bit_add)
  also have "\<dots> = take_bit (Suc n) (take_bit (Suc n) a + take_bit (Suc n) b)"
    by (simp only: take_bit_signed_take_bit order_refl)
  also have "\<dots> = take_bit (Suc n) (a + b)"
    by (simp only: take_bit_add)
  finally show ?thesis
    by (simp only: signed_take_bit_eq_iff_take_bit_eq)
qed

lemma take_bit_add_left: "take_bit n (take_bit n a + b) = take_bit n (a + b :: int)"
  by (simp only: take_bit_eq_mod mod_add_left_eq)

lemma dim_t_add: "dim_t P (dim_t P a + b) = dim_t P (a + b)"
proof (cases "DIM_SIGNED P")
  case True
  then show ?thesis by (simp only: dim_t_def if_True signed_take_bit_add_left)
next
  case False
  then show ?thesis by (simp only: dim_t_def if_False take_bit_add_left)
qed

lemma fold_dim_t:
  "fold (\<lambda>g w. dim_t P (w + advance g)) gs (dim_t P w0) = dim_t P (w0 + sum_list (map advance gs))"
proof (induction gs arbitrary: w0)
  case Nil
  then show ?case by simp
next
  case (Cons g gs)
  have "fold (\<lambda>g w. dim_t P (w + advance g)) (g # gs) (dim_t P w0)
          = fold (\<lambda>g w. dim_t P (w + advance g)) gs (dim_t P (w0 + advance g))"
    by (simp only: fold_simps o_apply dim_t_add)
  also have "\<dots> = dim_t P (w0 + advance g + sum_list (map advance gs))"
    by (rule Cons.IH)
  also have "w0 + advance g + sum_list (map advance gs) = w0 + sum_list (map advance (g # gs))"
    by simp
  finally show ?case .
qed

lemma face_slot_char_height [simp]:
  "face_slot P (f\<lparr>char_height := h\<rparr>) = face_slot P f"
  by (intro ext) (auto simp add: face_slot_def split: option.splits)

lemma finish_glyph_metrics:
  assumes "finish_glyph P charcode slot t = Inr (r, t1)"
  shows "\<exists>g. r = Some g \<and> from_slot P slot g"
  using assms
  by (auto simp add: finish_glyph_def from_slot_def Let_def split: sum.splits prod.splits)

lemma rasterize_metrics:
  assumes run: "rasterize P charcode t = Inr (r, t1)"
    and f: "face t = Some f"
    and h: "char_height f = Some (glyph_size * 64)"
  shows "case r of
           None \<Rightarrow> face_slot P f glyph_size charcode = None
         | Some g \<Rightarrow> \<exists>slot. face_slot P f glyph_size charcode = Some slot \<and> from_slot P slot g"
proof (cases "char_index f charcode = 0")
  case True
  then show ?thesis using run f by (auto simp add: rasterize_def Let_def face_slot_def)
next
  case nz: False
  show ?thesis
  proof (cases "load f (Some (glyph_size * 64)) (char_index f charcode)")
    case None
    then show ?thesis using run f h nz by (auto simp add: rasterize_def Let_def face_slot_def)
  next
    case (Some slot)
    note slot = Some
    have ok: "heap_ok P (allocs t)"
      using run f h nz slot by (auto simp add: rasterize_def Let_def emit_def split: if_splits)
    show ?thesis
    proof (cases "format_is_bitmap slot")
      case True
      then obtain t3 where "finish_glyph P charcode slot t3 = Inr (r, t1)"
        using run f h nz slot ok by (simp add: rasterize_def Let_def emit_def)
      from finish_glyph_metrics[OF this] show ?thesis
        using nz slot True by (auto simp add: face_slot_def)
    next
      case nb: False
      show ?thesis
      proof (cases "render f (screen_render_mode P) slot")
        case None
        then show ?thesis using run f h nz slot ok nb
          by (auto simp add: rasterize_def Let_def face_slot_def emit_def)
      next
        case (Some rendered)
        then obtain t4 where "finish_glyph P charcode rendered t4 = Inr (r, t1)"
          using run f h nz slot ok nb by (simp add: rasterize_def Let_def emit_def)
        from finish_glyph_metrics[OF this] show ?thesis
          using nz slot nb Some by (auto simp add: face_slot_def)
      qed
    qed
  qed
qed

lemma size_synced_set_font_size:
  assumes "size_synced t"
  shows "size_synced (snd (set_font_size sz t))"
  using assms
  by (auto simp add: size_synced_def set_font_size_def emit_def Let_def split: option.splits)

lemma cache_faithful_set_font_size:
  assumes "cache_faithful P t"
  shows "cache_faithful P (snd (set_font_size sz t))"
proof (cases "face t")
  case None
  then show ?thesis using assms
    by (simp add: cache_faithful_def set_font_size_def emit_def Let_def)
next
  case (Some f)
  show ?thesis
    unfolding cache_faithful_def
  proof (intro allI impI)
    fix s c g
    assume "s \<noteq> - 1 \<and> cache_find (cache (snd (set_font_size sz t))) s c = Some g"
    then have "s \<noteq> - 1 \<and> cache_find (cache t) s c = Some g" by (simp add: set_font_size_keeps)
    then obtain slot where "face_slot P f s c = Some slot" "from_slot P slot g"
      using assms Some unfolding cache_faithful_def by fastforce
    then show "\<exists>fa slot. face (snd (set_font_size sz t)) = Some fa
                 \<and> face_slot P fa s c = Some slot \<and> from_slot P slot g"
      using Some by (auto simp add: set_font_size_face)
  qed
qed

lemma rasterize_invariants:
  assumes faith: "cache_faithful P t" and sync: "size_synced t"
    and run: "rasterize P c t = Inr (r, t1)"
  shows "cache_faithful P t1 \<and> size_synced t1"
proof -
  note res = rasterize_result[OF run]
  have sync1: "size_synced t1" using sync res by (simp add: size_synced_def)
  have faith1: "cache_faithful P t1"
  proof (cases r)
    case None
    then have "cache t1 = cache t" "face t1 = face t" using res by simp_all
    then show ?thesis using faith by (simp add: cache_faithful_def)
  next
    case (Some g)
    then obtain f where c1: "cache t1 = cache_put (cache t) (current_size t) c g"
      and f: "face t = Some f" using res by auto
    have f1: "face t1 = Some f" using res f by simp
    show ?thesis
      unfolding cache_faithful_def
    proof (intro allI impI)
      fix sz c' g'
      assume a: "sz \<noteq> - 1 \<and> cache_find (cache t1) sz c' = Some g'"
      show "\<exists>fa slot. face t1 = Some fa \<and> face_slot P fa sz c' = Some slot \<and> from_slot P slot g'"
      proof (cases "sz = current_size t \<and> c' = c")
        case True
        then have g': "g' = g" using a c1 by (simp add: cache_find_put)
        have "char_height f = Some (sz * 64)"
          using sync f True a unfolding size_synced_def by auto
        from rasterize_metrics[OF run f this] Some
        obtain slot where "face_slot P f sz c = Some slot" "from_slot P slot g" by auto
        then show ?thesis using f1 g' True by auto
      next
        case False
        then have "sz \<noteq> - 1 \<and> cache_find (cache t) sz c' = Some g'"
          using a c1 by (auto simp add: cache_find_put split: if_splits)
        then show ?thesis using faith f f1 unfolding cache_faithful_def by fastforce
      qed
    qed
  qed
  show ?thesis using faith1 sync1 by simp
qed

lemma get_glyph_internal_invariants:
  assumes faith: "cache_faithful P t" and sync: "size_synced t"
    and run: "get_glyph_internal P c N t = Inr (r, t1)"
  shows "cache_faithful P t1 \<and> size_synced t1"
proof (cases "face t = None \<or> cache_find (cache t) N c \<noteq> None")
  case True
  then have "t1 = t" using run by (auto simp add: get_glyph_internal_def split: if_splits)
  then show ?thesis using faith sync by simp
next
  case False
  let ?t0 = "if current_size t \<noteq> N then snd (set_font_size N t) else t"
  have r0: "rasterize P c ?t0 = Inr (r, t1)"
    using run False by (auto simp add: get_glyph_internal_def)
  have "cache_faithful P ?t0" using faith by (simp add: cache_faithful_set_font_size)
  moreover have "size_synced ?t0" using sync by (simp add: size_synced_set_font_size)
  ultimately show ?thesis using rasterize_invariants[OF _ _ r0] by blast
qed

lemma invariants_new_TTF:
  assumes "new_TTF P src = Inr t"
  shows "cache_faithful P' t \<and> size_synced t"
  using new_TTF_fresh[OF assms] by (simp add: cache_faithful_def size_synced_def cache_find_def)

lemma invariants_clear_cache:
  assumes "size_synced t"
  shows "cache_faithful P (clear_cache t) \<and> size_synced (clear_cache t)"
  using assms by (simp add: cache_faithful_def size_synced_def clear_cache_def cache_find_def)

lemma dim_t_unsigned_fits:
  assumes "\<not> DIM_SIGNED P" "0 \<le> x" "x < 2 ^ DIM_BITS P"
  shows "dim_t P x = x"
  using assms by (simp add: dim_t_def take_bit_int_eq_self)

lemma get_glyph_internal_metrics:
  assumes faith: "cache_faithful P t" and sync: "size_synced t"
    and f: "face t = Some f"
    and size: "current_size t = N \<or> size_ok f (N * 64)"
    and N: "N \<noteq> - 1"
    and run: "get_glyph_internal P c N t = Inr (r, t1)"
  shows "(\<exists>h. face t1 = Some (f\<lparr>char_height := h\<rparr>))
         \<and> (current_size t1 = N \<or> size_ok f (N * 64))
         \<and> (case r of
               None \<Rightarrow> face_slot P f N c = None
             | Some g \<Rightarrow> \<exists>slot. face_slot P f N c = Some slot \<and> from_slot P slot g)"
proof (cases "cache_find (cache t) N c")
  case (Some g')
  then have same: "r = Some g' \<and> t1 = t"
    using run f by (simp add: get_glyph_internal_def)
  have "face t = Some (f\<lparr>char_height := char_height f\<rparr>)" using f by simp
  then have 1: "\<exists>h. face t = Some (f\<lparr>char_height := h\<rparr>)" by (rule exI)
  have 2: "\<exists>slot. face_slot P f N c = Some slot \<and> from_slot P slot g'"
    using faith Some f N unfolding cache_faithful_def by fastforce
  show ?thesis using same 1 2 size by simp
next
  case None
  let ?t0 = "if current_size t \<noteq> N then snd (set_font_size N t) else t"
  let ?f0 = "f\<lparr>char_height := Some (N * 64)\<rparr>"
  have r0: "rasterize P c ?t0 = Inr (r, t1)"
    using run f None by (simp add: get_glyph_internal_def)
  have height_t: "current_size t = N \<Longrightarrow> char_height f = Some (N * 64)"
    using sync f N unfolding size_synced_def by auto
  have face0: "face ?t0 = Some ?f0"
  proof (cases "current_size t = N")
    case True
    then show ?thesis using f height_t by simp
  next
    case False
    then have "size_ok f (N * 64)" using size by simp
    then show ?thesis using f False by (simp add: set_font_size_face)
  qed
  have cur0: "current_size ?t0 = N"
  proof (cases "current_size t = N")
    case True
    then show ?thesis by simp
  next
    case False
    then have "size_ok f (N * 64)" using size by simp
    then show ?thesis using f False by (simp add: set_font_size_current)
  qed
  note res = rasterize_result[OF r0]
  have m: "case r of
             None \<Rightarrow> face_slot P ?f0 N c = None
           | Some g \<Rightarrow> \<exists>slot. face_slot P ?f0 N c = Some slot \<and> from_slot P slot g"
    by (rule rasterize_metrics[OF r0 face0]) simp
  have face1: "face t1 = Some ?f0" using res face0 by simp
  have cur1: "current_size t1 = N" using res cur0 by simp
  have "\<exists>h. face t1 = Some (f\<lparr>char_height := h\<rparr>)" using face1 by blast
  moreover have "case r of
             None \<Rightarrow> face_slot P f N c = None
           | Some g \<Rightarrow> \<exists>slot. face_slot P f N c = Some slot \<and> from_slot P slot g"
    using m by (cases r) simp_all
  ultimately show ?thesis using cur1 by blast
qed

lemma glyphs_of_metrics:
  assumes "cache_faithful P t" "size_synced t" "face t = Some (f\<lparr>char_height := h\<rparr>)"
    and "current_size t = N \<or> size_ok f (N * 64)" "N \<noteq> - 1"
    and "glyphs_of P str N t = Inr (gs, t')"
  shows "list_all2 (from_slot P)
           (List.map_filter (\<lambda>ch. face_slot P f N (char_code P ch)) (c_string str)) gs
         \<and> cache_faithful P t' \<and> size_synced t'"
  using assms
proof (induction str arbitrary: t h gs)
  case Nil
  then show ?case by (simp add: c_string_def)
next
  case (Cons ch str)
  show ?case
  proof (cases "ch = CHR 0x00")
    case True
    then show ?thesis using Cons.prems by (simp add: c_string_def)
  next
    case False
    from Cons.prems(6) False obtain r t1 gs1 where
      step: "get_glyph_internal P (char_code P ch) N t = Inr (r, t1)" and
      rest: "glyphs_of P str N t1 = Inr (gs1, t')" and
      gs: "gs = (case r of None \<Rightarrow> gs1 | Some g \<Rightarrow> g # gs1)"
      by (auto split: sum.splits prod.splits)
    have size: "current_size t = N \<or> size_ok (f\<lparr>char_height := h\<rparr>) (N * 64)"
      using Cons.prems(4) by simp
    note one = get_glyph_internal_metrics[OF Cons.prems(1) Cons.prems(2) Cons.prems(3) size
                 Cons.prems(5) step]
    note inv = get_glyph_internal_invariants[OF Cons.prems(1) Cons.prems(2) step]
    from one obtain h1 where f1: "face t1 = Some (f\<lparr>char_height := h1\<rparr>)" by auto
    from one have size1: "current_size t1 = N \<or> size_ok f (N * 64)" by simp
    note ih = Cons.IH[OF inv[THEN conjunct1] inv[THEN conjunct2] f1 size1 Cons.prems(5) rest]
    have c: "c_string (ch # str) = ch # c_string str" using False by (simp add: c_string_def)
    show ?thesis
    proof (cases r)
      case None
      then have "face_slot P f N (char_code P ch) = None" using one by simp
      then show ?thesis using ih gs None c by simp
    next
      case (Some g)
      then obtain slot where "face_slot P f N (char_code P ch) = Some slot" "from_slot P slot g"
        using one by auto
      then show ?thesis using ih gs Some c by simp
    qed
  qed
qed

lemma sum_map_filter:
  "sum_list (map g (List.map_filter F xs)) =
     (\<Sum>x\<leftarrow>xs. case F x of None \<Rightarrow> 0 | Some y \<Rightarrow> (g y :: int))"
  by (induction xs) (auto split: option.splits)

lemma set_map_filter:
  "insert (0::int) (set (map g (List.map_filter F xs))) =
     insert 0 (set (map (\<lambda>x. case F x of None \<Rightarrow> 0 | Some y \<Rightarrow> g y) xs))"
  by (induction xs) (auto split: option.splits)

lemma from_slot_lists:
  assumes "list_all2 (from_slot P) slots gs"
  shows "map advance gs = map (\<lambda>slot. advance_x slot div 64) slots
       \<and> map ascent gs = map (\<lambda>slot. int16_t (bitmap_top slot)) slots
       \<and> map descent gs =
           map (\<lambda>slot. int16_t (dim_t P (bitmap_rows slot) - bitmap_top slot)) slots"
  using assms
  by (induction rule: list_all2_induct) (auto simp add: from_slot_def ascent_def descent_def)

lemma fold_max_Max: "fold max xs (a :: int) = Max (insert a (set xs))"
proof -
  have "Max (set (a # xs)) = fold max xs a" by (rule Max.set_eq_fold)
  then show ?thesis by simp
qed

lemma get_size_loop_glyphs:
  "get_size_loop P str glyph_size (dim_t P w, u, d) t =
     (case glyphs_of P str glyph_size t of
        Inl f \<Rightarrow> Inl f
      | Inr (gs, t') \<Rightarrow>
          Inr ((dim_t P (w + sum_list (map advance gs)),
                fold max (map ascent gs) u,
                fold max (map descent gs) d), t'))"
proof (induction str arbitrary: w u d t)
  case Nil
  then show ?case by simp
next
  case (Cons ch str)
  show ?case
  proof (cases "ch = CHR 0x00")
    case True
    then show ?thesis by simp
  next
    case False
    show ?thesis
    proof (cases "get_glyph_internal P (char_code P ch) glyph_size t")
      case (Inl f)
      then show ?thesis using False by simp
    next
      case (Inr res)
      obtain r t1 where res: "res = (r, t1)" by (cases res)
      show ?thesis
      proof (cases r)
        case None
        then show ?thesis using False Inr res Cons.IH[of w u d t1]
          by (simp split: sum.splits prod.splits)
      next
        case (Some g)
        have "get_size_loop P (ch # str) glyph_size (dim_t P w, u, d) t =
                get_size_loop P str glyph_size
                  (dim_t P (w + advance g), max (ascent g) u, max (descent g) d) t1"
          using False Inr res Some by (simp add: max_def dim_t_add)
        then show ?thesis
          using False Inr res Some
            Cons.IH[of "w + advance g" "max (ascent g) u" "max (descent g) d" t1]
          by (simp add: add.assoc split: sum.splits prod.splits)
      qed
    qed
  qed
qed

lemma get_size_glyphs:
  "get_size P str glyph_size t =
     (case glyphs_of P str glyph_size t of
        Inl f \<Rightarrow> Inl f
      | Inr (gs, t') \<Rightarrow>
          Inr (\<lparr>width = dim_t P (sum_list (map advance gs)),
                height = dim_t P (Max (insert 0 (set (map ascent gs)))
                                  + Max (insert 0 (set (map descent gs))))\<rparr>, t'))"
proof -
  have "get_size_loop P str glyph_size (0, 0, 0) t
          = get_size_loop P str glyph_size (dim_t P 0, 0, 0) t" by simp
  then show ?thesis
    by (simp only: get_size_def get_size_loop_glyphs)
       (simp add: fold_max_Max split: sum.splits prod.splits)
qed

lemma get_size_of_face:
  assumes faith: "cache_faithful P t" and sync: "size_synced t"
    and f: "face t = Some f"
    and size: "current_size t = glyph_size \<or> size_ok f (glyph_size * 64)"
    and N: "glyph_size \<noteq> - 1"
    and run: "get_size P str glyph_size t = Inr (d, t')"
  shows "width d = dim_t P (\<Sum>ch\<leftarrow>c_string str. char_advance P f glyph_size (char_code P ch))
       \<and> height d = dim_t P
           (Max (insert 0 (set (map (\<lambda>ch. char_ascent P f glyph_size (char_code P ch))
                                  (c_string str))))
            + Max (insert 0 (set (map (\<lambda>ch. char_descent P f glyph_size (char_code P ch))
                                    (c_string str)))))
       \<and> cache_faithful P t' \<and> size_synced t'"
proof -
  from run obtain gs where
    gl: "glyphs_of P str glyph_size t = Inr (gs, t')" and
    d: "d = \<lparr>width = dim_t P (sum_list (map advance gs)),
              height = dim_t P (Max (insert 0 (set (map ascent gs)))
                                + Max (insert 0 (set (map descent gs))))\<rparr>"
    unfolding get_size_glyphs by (auto split: sum.splits prod.splits)
  have f': "face t = Some (f\<lparr>char_height := char_height f\<rparr>)" using f by simp
  let ?F = "\<lambda>ch. face_slot P f glyph_size (char_code P ch)"
  note loop = glyphs_of_metrics[OF faith sync f' size N gl]
  note lists = from_slot_lists[OF loop[THEN conjunct1]]
  have w: "sum_list (map advance gs)
             = (\<Sum>ch\<leftarrow>c_string str. char_advance P f glyph_size (char_code P ch))"
    using lists sum_map_filter[of "\<lambda>slot. advance_x slot div 64" ?F "c_string str"]
    by (simp add: char_advance_def)
  have a: "insert 0 (set (map ascent gs)) =
             insert 0 (set (map (\<lambda>ch. char_ascent P f glyph_size (char_code P ch))
                              (c_string str)))"
    using lists set_map_filter[of "\<lambda>slot. int16_t (bitmap_top slot)" ?F "c_string str"]
    by (simp add: char_ascent_def)
  have b: "insert 0 (set (map descent gs)) =
             insert 0 (set (map (\<lambda>ch. char_descent P f glyph_size (char_code P ch))
                              (c_string str)))"
    using lists
      set_map_filter[of "\<lambda>slot. int16_t (dim_t P (bitmap_rows slot) - bitmap_top slot)" ?F
                       "c_string str"]
    by (simp add: char_descent_def)
  show ?thesis using d w a b loop by simp
qed

lemma char_code_ascii:
  assumes "(of_char ch :: int) < 128"
  shows "char_code P ch = of_char ch"
  using assms by (simp add: char_code_def)

text \<open>
  C1, as the code has it. Take an open face object in order (\<open>cache_faithful\<close>,
  \<open>size_synced\<close>: every new object is, by \<open>invariants_new_TTF\<close>, and
  \<^verbatim>\<open>get_glyph\<close>, \<^verbatim>\<open>set_font_size\<close> and \<^verbatim>\<open>clear_cache\<close> keep it so), a pixel
  size \<open>N\<close> other than -1 that is the current size or accepted by the face, and a
  string of 7-bit characters, each of them one byte. When \<^verbatim>\<open>get_size\<close> returns,
  the width is the sum of the advances that the face gives at size \<open>N\<close> to the
  characters of the string up to its first zero byte, a character without a glyph
  counting 0, and the height is the largest of 0 and the ascents plus the largest of 0
  and the descents of these characters, both reduced to the width of the fields of
  \<^verbatim>\<open>Dim\<close>. The only state the call has and changes is that of the face object (its
  glyph cache, its byte pool, the size of the face), which is in order afterwards; no
  page-layout state is in reach.
\<close>

theorem get_size_sums_advances:
  assumes faithful: "cache_faithful P t" and synced: "size_synced t"
    and open_face: "face t = Some f"
    and accepted: "current_size t = glyph_size \<or> size_ok f (glyph_size * 64)"
    and not_unset: "glyph_size \<noteq> - 1"
    and ascii: "\<forall>ch \<in> set (c_string str). (of_char ch :: int) < 128"
    and returns: "get_size P str glyph_size t = Inr (d, t1)"
  shows "width d = dim_t P (\<Sum>ch\<leftarrow>c_string str. char_advance P f glyph_size (of_char ch))
       \<and> height d = dim_t P
           (Max (insert 0 (set (map (\<lambda>ch. char_ascent P f glyph_size (of_char ch))
                                  (c_string str))))
            + Max (insert 0 (set (map (\<lambda>ch. char_descent P f glyph_size (of_char ch))
                                    (c_string str)))))
       \<and> cache_faithful P t1 \<and> size_synced t1"
proof -
  have adv: "map (\<lambda>ch. char_advance P f glyph_size (char_code P ch)) (c_string str)
               = map (\<lambda>ch. char_advance P f glyph_size (of_char ch)) (c_string str)"
    using ascii by (simp add: char_code_ascii)
  have asc: "map (\<lambda>ch. char_ascent P f glyph_size (char_code P ch)) (c_string str)
               = map (\<lambda>ch. char_ascent P f glyph_size (of_char ch)) (c_string str)"
    using ascii by (simp add: char_code_ascii)
  have des: "map (\<lambda>ch. char_descent P f glyph_size (char_code P ch)) (c_string str)
               = map (\<lambda>ch. char_descent P f glyph_size (of_char ch)) (c_string str)"
    using ascii by (simp add: char_code_ascii)
  show ?thesis
    using get_size_of_face[OF faithful synced open_face accepted not_unset returns]
    unfolding adv asc des by simp
qed

lemmas size_defs = get_size_def char_code_def ascent_def descent_def int16_t_def

lemmas face_defs = c_string_def char_advance_def char_ascent_def char_descent_def
  face_slot_def int16_t_def screen_render_mode_def dim_t_def

theorem get_size_sums_advances_witness:
  "cache_faithful test_platform test_TTF \<and> size_synced test_TTF
   \<and> face test_TTF = Some test_face \<and> size_ok test_face (16 * 64)
   \<and> (\<exists>t'. get_size test_platform ''A-'' 16 test_TTF = Inr (\<lparr>width = 24, height = 16\<rparr>, t'))
   \<and> (\<Sum>ch\<leftarrow>c_string ''A-''. char_advance test_platform test_face 16 (of_char ch)) = 24
   \<and> map (\<lambda>ch. char_ascent test_platform test_face 16 (of_char ch)) (c_string ''A-'') = [16, 5]
   \<and> map (\<lambda>ch. char_descent test_platform test_face 16 (of_char ch)) (c_string ''A-'') = [0, - 4]"
proof -
  let ?d = "fst (projr (get_size test_platform ''A-'' 16 test_TTF))"
  let ?t' = "snd (projr (get_size test_platform ''A-'' 16 test_TTF))"
  have faith: "cache_faithful test_platform test_TTF"
    by (simp add: cache_faithful_def cache_find_def test_TTF_def blank_TTF_def)
  have sync: "size_synced test_TTF"
    by (simp add: size_synced_def test_TTF_def blank_TTF_def)
  have f: "face test_TTF = Some test_face" by (simp add: test_TTF_def)
  have ok: "size_ok test_face (16 * 64)" by (simp add: test_face_def)
  have acc: "current_size test_TTF = 16 \<or> size_ok test_face (16 * 64)" using ok by simp
  have run: "get_size test_platform ''A-'' 16 test_TTF = Inr (?d, ?t')"
    by (simp add: size_defs engine_defs test_defs)
  have N: "(16 :: int) \<noteq> - 1" by simp
  have ascii: "\<forall>ch \<in> set (c_string ''A-''). (of_char ch :: int) < 128"
    by (simp add: c_string_def)
  note measured = get_size_sums_advances [OF faith sync f acc N ascii run]
  have w: "(\<Sum>ch\<leftarrow>c_string ''A-''. char_advance test_platform test_face 16 (of_char ch)) = 24"
    by (simp add: face_defs test_defs)
  have a: "map (\<lambda>ch. char_ascent test_platform test_face 16 (of_char ch)) (c_string ''A-'') = [16, 5]"
    by (simp add: face_defs test_defs)
  have b: "map (\<lambda>ch. char_descent test_platform test_face 16 (of_char ch)) (c_string ''A-'') = [0, - 4]"
    by (simp add: face_defs test_defs)
  have wd: "width ?d = dim_t test_platform 24"
    using measured [THEN conjunct1] unfolding w .
  have hd: "height ?d = dim_t test_platform (Max (insert 0 (set [16, 5]))
                                             + Max (insert 0 (set [0, - 4])))"
    using measured [THEN conjunct2, THEN conjunct1] unfolding a b .
  have "width ?d = 24 \<and> height ?d = 16"
    unfolding wd hd by (simp add: dim_t_def test_platform_def)
  then have "?d = \<lparr>width = 24, height = 16\<rparr>" by (cases ?d) simp
  then have "\<exists>t'. get_size test_platform ''A-'' 16 test_TTF = Inr (\<lparr>width = 24, height = 16\<rparr>, t')"
    using run by metis
  then show ?thesis using faith sync f ok w a b by blast
qed

text \<open>
  The claim C1 as stated fails: the hyphen of the synthetic face at size 16 is one row
  high and sits 5 rows above the baseline, so its ascent is 5 and its descent is -4.
  The largest ascent plus the largest descent is 1, the height of the tight box;
  \<^verbatim>\<open>get_size\<close> returns 5, since \<^verbatim>\<open>max_down\<close> starts at 0.
\<close>

theorem get_size_tight_box_counterexample:
  "\<exists>d t' gs. get_size test_platform ''-'' 16 test_TTF = Inr (d, t')
      \<and> glyphs_of test_platform ''-'' 16 test_TTF = Inr (gs, t')
      \<and> height d = 5 \<and> tight_height gs = 1 \<and> height d \<noteq> tight_height gs"
  by (simp add: size_defs tight_height_def engine_defs test_defs)


section \<open>Properties of the font registry: entries\<close>

subsection \<open>Registering a font\<close>

lemma already_loaded_entries:
  "already_loaded nm sty es = (filter (\<lambda>e. name e = nm \<and> style e = sty) es \<noteq> [])"
  by (induction es) auto

lemma add_result:
  "add P nm sty src r = Inr (True, r1) \<Longrightarrow>
     (already_loaded nm sty (font_cache r) \<and> r1 = r)
     \<or> (\<not> already_loaded nm sty (font_cache r)
         \<and> (\<exists>e. name e = nm \<and> style e = sty \<and> font_cache r1 = font_cache r @ [e])
         \<and> opened r1 = opened r @ [src])"
  by (auto simp add: add_def Let_def split: if_splits sum.splits)

lemma add_failure:
  "add P nm sty src r = Inr (False, r') \<longleftrightarrow>
     \<not> already_loaded nm sty (font_cache r)
     \<and> (\<exists>t. new_TTF P src = Inr t \<and> \<not> ready t)
     \<and> r' = r\<lparr>opened := opened r @ [src]\<rparr>"
  by (auto simp add: add_def Let_def split: if_splits sum.splits)

lemma add_keeps_single_entries:
  assumes "\<forall>nm' sty'. entries_for nm' sty' r \<le> 1"
    and "add P nm sty src r = Inr (b, r')"
  shows "entries_for nm' sty' r' \<le> 1"
proof (cases "already_loaded nm sty (font_cache r)")
  case True
  then have "r' = r" using assms(2) by (simp add: add_def)
  then show ?thesis using assms(1) by simp
next
  case False
  then have zero: "entries_for nm sty r = 0"
    by (simp add: already_loaded_entries entries_for_def)
  show ?thesis
  proof (cases b)
    case True
    have "add P nm sty src r = Inr (True, r')" using assms(2) True by simp
    from add_result[OF this] \<open>\<not> already_loaded nm sty (font_cache r)\<close> obtain e where
      e: "name e = nm" "style e = sty" "font_cache r' = font_cache r @ [e]" by auto
    show ?thesis
    proof (cases "nm' = nm \<and> sty' = sty")
      case True
      then show ?thesis using e zero by (simp add: entries_for_def)
    next
      case False
      then have "entries_for nm' sty' r' = entries_for nm' sty' r"
        using e by (auto simp add: entries_for_def)
      then show ?thesis using assms(1) by simp
    qed
  next
    case False
    then have "font_cache r' = font_cache r"
      using assms(2) add_failure[of P nm sty src r r'] by simp
    then show ?thesis using assms(1) by (simp add: entries_for_def)
  qed
qed




section \<open>Properties of the font registry: clearing\<close>

lemma clear_loop_all: "clear_loop True i es = Inr (map (\<lambda>e. e\<lparr>font := None\<rparr>) es)"
  by (induction es arbitrary: i) auto

lemma clear_loop_keep:
  assumes "\<forall>e \<in> set (take (5 - i) es). font e \<noteq> None"
  shows "clear_loop False i es =
           Inr (map (\<lambda>e. e\<lparr>font := map_option clear_cache (font e)\<rparr>) (take (5 - i) es)
                @ map (\<lambda>e. e\<lparr>font := None\<rparr>) (drop (5 - i) es))"
  using assms
proof (induction es arbitrary: i)
  case Nil
  then show ?case by simp
next
  case (Cons e es)
  show ?case
  proof (cases "5 \<le> i")
    case True
    then show ?thesis using Cons.IH[of "Suc i"] by simp
  next
    case False
    then have s: "5 - i = Suc (5 - Suc i)" by simp
    from Cons.prems obtain t where t: "font e = Some t" unfolding s by auto
    have "\<forall>e \<in> set (take (5 - Suc i) es). font e \<noteq> None"
      using Cons.prems unfolding s by simp
    from Cons.IH[OF this] show ?thesis using False t unfolding s by simp
  qed
qed

lemma clear_loop_null:
  assumes "\<exists>e \<in> set (take (5 - i) es). font e = None"
  shows "clear_loop False i es = Inl NullPointer"
  using assms
proof (induction es arbitrary: i)
  case Nil
  then show ?case by simp
next
  case (Cons e es)
  show ?case
  proof (cases "5 \<le> i")
    case True
    then show ?thesis using Cons.prems by simp
  next
    case False
    then have s: "5 - i = Suc (5 - Suc i)" by simp
    show ?thesis
    proof (cases "font e")
      case None
      then show ?thesis using False by simp
    next
      case (Some t)
      then have "\<exists>e \<in> set (take (5 - Suc i) es). font e = None"
        using Cons.prems unfolding s by auto
      from Cons.IH[OF this] show ?thesis using False Some by simp
    qed
  qed
qed

lemma clear_false_result:
  assumes on: "USE_EPUB_FONTS P"
    and fonts: "\<forall>e \<in> set (take 5 (font_cache r)). font e \<noteq> None"
  shows "clear P False r =
           Inr (r\<lparr>font_cache :=
                  map (\<lambda>e. e\<lparr>font := map_option clear_cache (font e)\<rparr>) (take 5 (font_cache r))
                  @ replicate (5 - length (font_cache r))
                      \<lparr>name = [], font = None, style = NORMAL\<rparr>\<rparr>)"
proof -
  have "\<forall>e \<in> set (take (5 - 0) (font_cache r)). font e \<noteq> None" using fonts by simp
  from clear_loop_keep[OF this] show ?thesis
    using on by (simp add: clear_def resize_def min_def)
qed

lemma clear_false_null:
  assumes on: "USE_EPUB_FONTS P"
    and null: "\<exists>e \<in> set (take 5 (font_cache r)). font e = None"
  shows "clear P False r = Inl NullPointer"
proof -
  have "\<exists>e \<in> set (take (5 - 0) (font_cache r)). font e = None" using null by simp
  from clear_loop_null[OF this] show ?thesis using on by (simp add: clear_def)
qed

lemma clear_false_short:
  assumes on: "USE_EPUB_FONTS P"
    and short: "length (font_cache r) < 5"
    and run: "clear P False r = Inr r'"
  shows "length (font_cache r') = 5 \<and> font (font_cache r' ! 4) = None
         \<and> clear P False r' = Inl NullPointer"
proof -
  have fonts: "\<forall>e \<in> set (take 5 (font_cache r)). font e \<noteq> None"
  proof (rule ccontr)
    assume "\<not> ?thesis"
    then have "\<exists>e \<in> set (take 5 (font_cache r)). font e = None" by simp
    from clear_false_null[OF on this] show False using run by simp
  qed
  let ?kept = "map (\<lambda>e. e\<lparr>font := map_option clear_cache (font e)\<rparr>) (take 5 (font_cache r))"
  let ?blank = "\<lparr>name = [], font = None, style = NORMAL\<rparr> :: FontEntry"
  have r': "font_cache r' = ?kept @ replicate (5 - length (font_cache r)) ?blank"
    using clear_false_result[OF on fonts] run by auto
  have len: "length (font_cache r') = 5" using r' short by simp
  have "font_cache r' ! 4 = ?blank"
    using r' short by (simp add: nth_append)
  then have last: "font (font_cache r' ! 4) = None" by simp
  have "font_cache r' ! 4 \<in> set (take 5 (font_cache r'))" using len by simp
  then have "\<exists>e \<in> set (take 5 (font_cache r')). font e = None" using last by blast
  from clear_false_null[OF on this] show ?thesis using len last by simp
qed

text \<open>
  C5, as the code has it, with \<^verbatim>\<open>USE_EPUB_FONTS\<close> set. \<^verbatim>\<open>clear(true)\<close> leaves the
  registry empty, whatever it held. \<^verbatim>\<open>clear(false)\<close> calls \<^verbatim>\<open>clear_cache\<close> on the
  fonts of the first five entries and deletes the later ones; where one of these first
  fonts is null the call goes through a null pointer. Otherwise \<^verbatim>\<open>resize(5)\<close> leaves
  the first five entries, each with the glyph cache and the byte pool of its font
  emptied and nothing else changed: for a registry of five entries or more this is what
  C5 says. On a registry of fewer than five entries the code departs from it:
  \<^verbatim>\<open>resize(5)\<close> fills the registry up to five entries with value-initialised ones,
  whose font is null, so the registry holds entries that were never added, and the next
  \<^verbatim>\<open>clear(false)\<close> goes through a null pointer.
\<close>

theorem clear_resizes_to_five:
  assumes on: "USE_EPUB_FONTS P"
  shows "clear P True r = Inr (r\<lparr>font_cache := []\<rparr>)
       \<and> (if \<forall>e \<in> set (take 5 (font_cache r)). font e \<noteq> None
          then clear P False r =
                 Inr (r\<lparr>font_cache :=
                        map (\<lambda>e. e\<lparr>font := map_option clear_cache (font e)\<rparr>)
                          (take 5 (font_cache r))
                        @ replicate (5 - length (font_cache r))
                            \<lparr>name = [], font = None, style = NORMAL\<rparr>\<rparr>)
          else clear P False r = Inl NullPointer)
       \<and> (5 \<le> length (font_cache r) \<and> (\<forall>e \<in> set (take 5 (font_cache r)). font e \<noteq> None) \<longrightarrow>
            clear P False r =
              Inr (r\<lparr>font_cache :=
                     map (\<lambda>e. e\<lparr>font := map_option clear_cache (font e)\<rparr>)
                       (take 5 (font_cache r))\<rparr>))
       \<and> (\<forall>r'. length (font_cache r) < 5 \<and> clear P False r = Inr r' \<longrightarrow>
             length (font_cache r') = 5 \<and> font (font_cache r' ! 4) = None
             \<and> clear P False r' = Inl NullPointer)
       \<and> (\<forall>t. cache (clear_cache t) = Map.empty \<and> byte_pools (clear_cache t) = []
              \<and> face (clear_cache t) = face t \<and> current_size (clear_cache t) = current_size t
              \<and> memory_font (clear_cache t) = memory_font t)"
proof -
  have a: "clear P True r = Inr (r\<lparr>font_cache := []\<rparr>)"
    using on by (simp add: clear_def resize_def clear_loop_all)
  have b: "(if \<forall>e \<in> set (take 5 (font_cache r)). font e \<noteq> None
          then clear P False r =
                 Inr (r\<lparr>font_cache :=
                        map (\<lambda>e. e\<lparr>font := map_option clear_cache (font e)\<rparr>)
                          (take 5 (font_cache r))
                        @ replicate (5 - length (font_cache r))
                            \<lparr>name = [], font = None, style = NORMAL\<rparr>\<rparr>)
          else clear P False r = Inl NullPointer)"
    using clear_false_result[OF on] clear_false_null[OF on] by auto
  have c: "5 \<le> length (font_cache r) \<and> (\<forall>e \<in> set (take 5 (font_cache r)). font e \<noteq> None) \<longrightarrow>
            clear P False r =
              Inr (r\<lparr>font_cache :=
                     map (\<lambda>e. e\<lparr>font := map_option clear_cache (font e)\<rparr>)
                       (take 5 (font_cache r))\<rparr>)"
    using clear_false_result[OF on] by simp
  have d: "\<forall>r'. length (font_cache r) < 5 \<and> clear P False r = Inr r' \<longrightarrow>
             length (font_cache r') = 5 \<and> font (font_cache r' ! 4) = None
             \<and> clear P False r' = Inl NullPointer"
    using clear_false_short[OF on] by blast
  have e: "\<forall>t. cache (clear_cache t) = Map.empty \<and> byte_pools (clear_cache t) = []
              \<and> face (clear_cache t) = face t \<and> current_size (clear_cache t) = current_size t
              \<and> memory_font (clear_cache t) = memory_font t"
    by (simp add: clear_cache_def)
  show ?thesis by (rule conjI[OF a conjI[OF b conjI[OF c conjI[OF d e]]]])
qed

theorem clear_resizes_to_five_witness:
  "USE_EPUB_FONTS test_platform
   \<and> cache_find (cache cached_TTF) 16 65 \<noteq> None
   \<and> byte_pools cached_TTF \<noteq> []
   \<and> cache (clear_cache cached_TTF) = Map.empty
   \<and> byte_pools (clear_cache cached_TTF) = []
   \<and> (\<exists>r'. clear test_platform False six_Fonts = Inr r'
         \<and> map name (font_cache r') = [''Drawings'', ''Default'', ''Default'', ''Default'', ''Default'']
         \<and> map style (font_cache r') = [NORMAL, NORMAL, BOLD, ITALIC, BOLD_ITALIC]
         \<and> map font (font_cache r') = replicate 5 (Some (clear_cache cached_TTF)))
   \<and> clear test_platform True six_Fonts = Inr (six_Fonts\<lparr>font_cache := []\<rparr>)
   \<and> clear test_platform True two_Fonts = Inr (two_Fonts\<lparr>font_cache := []\<rparr>)
   \<and> (\<exists>r'. clear test_platform False two_Fonts = Inr r'
         \<and> map font (font_cache r')
             = [Some (clear_cache cached_TTF), Some (clear_cache cached_TTF), None, None, None]
         \<and> clear test_platform False r' = Inl NullPointer)"
proof -
  have on: "USE_EPUB_FONTS test_platform" by (simp add: test_platform_def)
  have c1: "cache_find (cache cached_TTF) 16 65 \<noteq> None"
    by (simp add: cached_TTF_def engine_defs test_defs)
  have c2: "byte_pools cached_TTF \<noteq> []"
    by (simp add: cached_TTF_def engine_defs test_defs)
  have p1: "cache (clear_cache cached_TTF) = Map.empty" by (simp add: clear_cache_def)
  have p2: "byte_pools (clear_cache cached_TTF) = []" by (simp add: clear_cache_def)
  note six = clear_resizes_to_five [OF on, of six_Fonts]
  note two = clear_resizes_to_five [OF on, of two_Fonts]
  let ?six' = "six_Fonts\<lparr>font_cache :=
                  map (\<lambda>e. e\<lparr>font := map_option clear_cache (font e)\<rparr>)
                    (take 5 (font_cache six_Fonts))\<rparr>"
  have six_fonts: "5 \<le> length (font_cache six_Fonts)
                   \<and> (\<forall>e \<in> set (take 5 (font_cache six_Fonts)). font e \<noteq> None)"
    by (simp add: six_Fonts_def)
  have keep: "clear test_platform False six_Fonts = Inr ?six'"
    by (rule six [THEN conjunct2, THEN conjunct2, THEN conjunct1, rule_format, OF six_fonts])
  have shape: "map name (font_cache ?six') = [''Drawings'', ''Default'', ''Default'', ''Default'', ''Default'']
         \<and> map style (font_cache ?six') = [NORMAL, NORMAL, BOLD, ITALIC, BOLD_ITALIC]
         \<and> map font (font_cache ?six') = replicate 5 (Some (clear_cache cached_TTF))"
    by (simp add: six_Fonts_def numeral_eq_Suc)
  have ex6: "\<exists>r'. clear test_platform False six_Fonts = Inr r'
         \<and> map name (font_cache r') = [''Drawings'', ''Default'', ''Default'', ''Default'', ''Default'']
         \<and> map style (font_cache r') = [NORMAL, NORMAL, BOLD, ITALIC, BOLD_ITALIC]
         \<and> map font (font_cache r') = replicate 5 (Some (clear_cache cached_TTF))"
    by (rule exI [where x = ?six']) (rule conjI [OF keep shape])
  have all6: "clear test_platform True six_Fonts = Inr (six_Fonts\<lparr>font_cache := []\<rparr>)"
    by (rule six [THEN conjunct1])
  have all2: "clear test_platform True two_Fonts = Inr (two_Fonts\<lparr>font_cache := []\<rparr>)"
    by (rule two [THEN conjunct1])
  let ?two' = "two_Fonts\<lparr>font_cache :=
                  map (\<lambda>e. e\<lparr>font := map_option clear_cache (font e)\<rparr>)
                    (take 5 (font_cache two_Fonts))
                  @ replicate (5 - length (font_cache two_Fonts))
                      \<lparr>name = [], font = None, style = NORMAL\<rparr>\<rparr>"
  have two_fonts: "\<forall>e \<in> set (take 5 (font_cache two_Fonts)). font e \<noteq> None"
    by (simp add: two_Fonts_def)
  have pad: "clear test_platform False two_Fonts = Inr ?two'"
    using two [THEN conjunct2, THEN conjunct1] two_fonts by (simp only: if_True)
  have padded: "map font (font_cache ?two')
             = [Some (clear_cache cached_TTF), Some (clear_cache cached_TTF), None, None, None]"
    by (simp add: two_Fonts_def numeral_eq_Suc)
  have short: "length (font_cache two_Fonts) < 5" by (simp add: two_Fonts_def)
  have crash: "clear test_platform False ?two' = Inl NullPointer"
    by (rule two [THEN conjunct2, THEN conjunct2, THEN conjunct2, THEN conjunct1, rule_format,
                  OF conjI [OF short pad], THEN conjunct2, THEN conjunct2])
  have ex2: "\<exists>r'. clear test_platform False two_Fonts = Inr r'
         \<and> map font (font_cache r')
             = [Some (clear_cache cached_TTF), Some (clear_cache cached_TTF), None, None, None]
         \<and> clear test_platform False r' = Inl NullPointer"
    by (rule exI [where x = ?two']) (rule conjI [OF pad conjI [OF padded crash]])
  show ?thesis
    by (rule conjI [OF on conjI [OF c1 conjI [OF c2 conjI [OF p1 conjI [OF p2
          conjI [OF ex6 conjI [OF all6 conjI [OF all2 ex2]]]]]]]])
qed

end
